theory Spec2Isabelle
  imports Complex_Main
begin

section \<open>Tensors, memory and errors\<close>

text \<open>
  The development embeds \<^verbatim>\<open>cpp/open3d/core/linalg/LU.cpp\<close>: the factorization driver
  \<^verbatim>\<open>LU_with_ipiv\<close>, the entry point \<^verbatim>\<open>LU\<close>, the reconstructor \<^verbatim>\<open>OutputToPLU\<close> and the
  permutation decoder \<^verbatim>\<open>GetColPermutation\<close>.

  A tensor is a handle (shape, strides, element type, device, and the address of the blob
  that holds its elements); the elements live in a memory that maps blob addresses to
  element lists. Views (\<^verbatim>\<open>T()\<close>) share the blob of their source, copies (\<^verbatim>\<open>Clone()\<close>,
  \<^verbatim>\<open>Contiguous()\<close> of a non-contiguous view) allocate a new one, and the factorization
  kernels write through the raw pointers they are given.

  Floating-point elements are modelled by an arbitrary commutative ring \<open>'a\<close> with exact
  arithmetic; rounding is not modelled. Dimensions are natural numbers: the narrowing
  \<^verbatim>\<open>int n = output.GetShape()[0]\<close> never wraps for a square tensor that fits the address
  space (\<open>n < 2 ^ 31\<close>, a hypothesis wherever the pivots are decoded).
\<close>

datatype Dtype = Undefined | Float32 | Float64 | Int8 | Int16 | Int32 | Int64
  | UInt8 | UInt16 | Bool

datatype DeviceType = CPU | CUDA

datatype Device = Device DeviceType nat

fun GetType :: "Device \<Rightarrow> DeviceType" where
  "GetType (Device ty n) = ty"

record Tensor =
  shape :: "nat list"
  strides :: "nat list"
  blob :: nat
  dtype :: Dtype
  device :: Device

text \<open>
  Every \<^verbatim>\<open>utility::LogError\<close> of the source throws; each call site is one constructor.
  \<open>OutOfBounds\<close> stands for a read or write outside a buffer (undefined behaviour in the
  source, which does not check); \<open>BackendError\<close> is whatever an external collaborator
  raises.
\<close>

datatype error =
    UnsupportedDtype       \<comment> \<open>"Only tensors with Float32 or Float64 are supported"\<close>
  | InvalidRank            \<comment> \<open>"Tensor A must be 2D"\<close>
  | NotSquare              \<comment> \<open>"Tensor A must be square"\<close>
  | EmptyDimension         \<comment> \<open>"Tensor shapes should not contain dimensions with zero."\<close>
  | UnsupportedIntegerWidth \<comment> \<open>"Unsupported OPEN3D_CPU_LINALG_INT type."\<close>
  | OutOfBounds
  | BackendError

datatype kernel = LUCPU_kernel | LUCUDA_kernel

record 'a state =
  fdata :: "nat \<Rightarrow> 'a list"       \<comment> \<open>blobs of floating-point tensors\<close>
  idata :: "nat \<Rightarrow> int list"      \<comment> \<open>blobs of integer tensors\<close>
  next_blob :: nat                \<comment> \<open>the next free blob address\<close>
  logged :: "string list"         \<comment> \<open>messages of \<^verbatim>\<open>utility::LogInfo\<close>\<close>
  kernels :: "kernel list"        \<comment> \<open>factorization kernels invoked so far\<close>

text \<open>
  The build: \<^verbatim>\<open>#ifdef BUILD_CUDA_MODULE\<close> and \<^verbatim>\<open>sizeof(OPEN3D_CPU_LINALG_INT)\<close> are fixed
  at compile time, and neither is defined in the file.
\<close>

record build =
  BUILD_CUDA_MODULE :: bool
  sizeof_OPEN3D_CPU_LINALG_INT :: nat

text \<open>
  The external collaborators, taken as parameters: the host and accelerator
  factorization routines behind \<^verbatim>\<open>LUCPU\<close> and \<^verbatim>\<open>LUCUDA\<close> (given \<open>n\<close>, the element type and
  the column-major buffer, they return the factored buffer and the pivot array, or raise),
  and the general matrix inverse behind \<^verbatim>\<open>Tensor::Inverse\<close> (on a row-major matrix).
\<close>

record 'a backend =
  getrf_cpu :: "nat \<Rightarrow> Dtype \<Rightarrow> 'a list \<Rightarrow> error + 'a list \<times> int list"
  getrf_cuda :: "nat \<Rightarrow> Dtype \<Rightarrow> 'a list \<Rightarrow> error + 'a list \<times> int list"
  inverse_impl :: "'a list list \<Rightarrow> error + 'a list list"

subsection \<open>Operations that can raise\<close>

type_synonym ('r, 'a) op = "'a state \<Rightarrow> (error + 'r) \<times> 'a state"

definition returnE :: "'r \<Rightarrow> ('r, 'a) op" where
  "returnE x s = (Inr x, s)"

definition throwE :: "error \<Rightarrow> ('r, 'a) op" where
  "throwE e s = (Inl e, s)"

definition bindE :: "('r, 'a) op \<Rightarrow> ('r \<Rightarrow> ('q, 'a) op) \<Rightarrow> ('q, 'a) op" where
  "bindE m f s = (case m s of (Inl e, s') \<Rightarrow> (Inl e, s') | (Inr x, s') \<Rightarrow> f x s')"

subsection \<open>Matrices as values\<close>

text \<open>
  A matrix value is the list of its rows. The functions below say what the absent tensor
  operations compute (transpose, product, identity, the two triangles of \<^verbatim>\<open>Thiul\<close>); the
  product and the identity are the usual ones, the triangles follow section 4.3 of the
  specification: the upper triangle with the diagonal, and the strict lower triangle with an
  implicit unit diagonal.
\<close>

definition mk_mat :: "nat \<Rightarrow> nat \<Rightarrow> (nat \<Rightarrow> nat \<Rightarrow> 'a) \<Rightarrow> 'a list list" where
  "mk_mat r c f = map (\<lambda>i. map (\<lambda>j. f i j) [0..<c]) [0..<r]"

definition mat_ok :: "nat \<Rightarrow> nat \<Rightarrow> 'a list list \<Rightarrow> bool" where
  "mat_ok r c m \<longleftrightarrow> length m = r \<and> list_all (\<lambda>row. length row = c) m"

definition transpose_mat :: "nat \<Rightarrow> nat \<Rightarrow> 'a list list \<Rightarrow> 'a list list" where
  "transpose_mat r c m = mk_mat c r (\<lambda>i j. m ! j ! i)"

definition mat_mul :: "nat \<Rightarrow> 'a::comm_ring_1 list list \<Rightarrow> 'a list list \<Rightarrow> 'a list list" where
  "mat_mul n a b = mk_mat n n (\<lambda>i j. sum_list (map (\<lambda>k. a ! i ! k * b ! k ! j) [0..<n]))"

definition eye :: "nat \<Rightarrow> 'a::comm_ring_1 list list" where
  "eye n = mk_mat n n (\<lambda>i j. if i = j then 1 else 0)"

definition triu :: "nat \<Rightarrow> nat \<Rightarrow> 'a::comm_ring_1 list list \<Rightarrow> 'a list list" where
  "triu r c m = mk_mat r c (\<lambda>i j. if i \<le> j then m ! i ! j else 0)"

definition tril_unit :: "nat \<Rightarrow> nat \<Rightarrow> 'a::comm_ring_1 list list \<Rightarrow> 'a list list" where
  "tril_unit r c m = mk_mat r c (\<lambda>i j. if j < i then m ! i ! j else if i = j then 1 else 0)"

text \<open>Row-major materialisation of an \<open>r \<times> c\<close> matrix, and the default strides of a shape.\<close>

definition flatten :: "nat \<Rightarrow> nat \<Rightarrow> 'a list list \<Rightarrow> 'a list" where
  "flatten r c m = map (\<lambda>k. m ! (k div c) ! (k mod c)) [0..<r * c]"

fun default_strides :: "nat list \<Rightarrow> nat list" where
  "default_strides [] = []"
| "default_strides (d # ds) = prod_list ds # default_strides ds"

text \<open>The matrix a rank-2 handle denotes, read through its strides.\<close>

definition mat_of :: "'a state \<Rightarrow> Tensor \<Rightarrow> 'a list list" where
  "mat_of s t = mk_mat (shape t ! 0) (shape t ! 1)
     (\<lambda>i j. fdata s (blob t) ! (i * (strides t ! 0) + j * (strides t ! 1)))"


subsection \<open>The tensor operations the file calls\<close>

text \<open>
  The tensor abstraction (allocation, transpose, contiguity, identity, indexed row gather,
  inverse, matrix multiply, conversion) is not part of the file. Section 6 of the
  specification lists the operations consumed and assumes them correct; each is modelled
  here from that list and from the way the file uses it. Every operation that produces a
  tensor allocates a fresh blob, except the transposed view \<open>T\<close>, \<open>Contiguous\<close> on a tensor
  that is already contiguous, and \<open>To\<close> without \<open>copy\<close> when device and element type already
  agree. No zero-length dimension reaches these operations (the driver rejects it first).
\<close>

text \<open>
  Modelled from the spec: allocation of a contiguous (row-major) \<open>r \<times> c\<close> tensor holding the
  matrix \<open>m\<close>; the constructor of the absent tensor class.
\<close>

definition new_mat ::
  "nat \<Rightarrow> nat \<Rightarrow> Dtype \<Rightarrow> Device \<Rightarrow> 'a list list \<Rightarrow> (Tensor, 'a) op" where
  "new_mat r c dt dev m s =
     (Inr \<lparr>shape = [r, c], strides = default_strides [r, c], blob = next_blob s,
           dtype = dt, device = dev\<rparr>,
      s\<lparr>fdata := (fdata s)(next_blob s := flatten r c m), next_blob := Suc (next_blob s)\<rparr>)"

text \<open>
  Modelled from the spec: allocation of a one-dimensional integer tensor holding \<open>xs\<close>; the
  constructor of the absent tensor class.
\<close>

definition new_ivec :: "Dtype \<Rightarrow> Device \<Rightarrow> int list \<Rightarrow> (Tensor, 'a) op" where
  "new_ivec dt dev xs s =
     (Inr \<lparr>shape = [length xs], strides = default_strides [length xs], blob = next_blob s,
           dtype = dt, device = dev\<rparr>,
      s\<lparr>idata := (idata s)(next_blob s := xs), next_blob := Suc (next_blob s)\<rparr>)"

text \<open>
  Modelled from the spec: the default constructor \<^verbatim>\<open>Tensor()\<close> (absent), as \<^verbatim>\<open>LU\<close> uses it
  for its two locals: no elements, no element type, on the host. It owns no storage; a
  fresh address stands for that.
\<close>

definition Tensor_default :: "(Tensor, 'a) op" where
  "Tensor_default s =
     (Inr \<lparr>shape = [0], strides = [1], blob = next_blob s, dtype = Undefined,
           device = Device CPU 0\<rparr>,
      s\<lparr>next_blob := Suc (next_blob s)\<rparr>)"

text \<open>
  Modelled from the spec: \<^verbatim>\<open>Tensor::T()\<close> (absent), the transpose as a view: same blob,
  shape and strides swapped. Only rank 2 occurs in the file.
\<close>

definition T :: "Tensor \<Rightarrow> Tensor" where
  "T t = (if length (shape t) = 2
          then t\<lparr>shape := [shape t ! 1, shape t ! 0], strides := [strides t ! 1, strides t ! 0]\<rparr>
          else t)"

text \<open>
  Modelled from the spec: \<^verbatim>\<open>Tensor::Clone()\<close> (absent), an independent contiguous copy
  of a rank-2 tensor.
\<close>

definition Clone :: "Tensor \<Rightarrow> (Tensor, 'a) op" where
  "Clone t s = new_mat (shape t ! 0) (shape t ! 1) (dtype t) (device t) (mat_of s t) s"

text \<open>
  Modelled from the spec: \<^verbatim>\<open>Tensor::IsContiguous()\<close> and \<^verbatim>\<open>Tensor::Contiguous()\<close> (absent):
  a tensor whose strides are the default ones is returned as it is, any other is copied
  into contiguous storage.
\<close>

definition IsContiguous :: "Tensor \<Rightarrow> bool" where
  "IsContiguous t \<longleftrightarrow> strides t = default_strides (shape t)"

definition Contiguous :: "Tensor \<Rightarrow> (Tensor, 'a) op" where
  "Contiguous t = (if IsContiguous t then returnE t else Clone t)"

text \<open>
  Modelled from the spec: \<^verbatim>\<open>Tensor::Empty({n}, dtype, device)\<close> (absent), called in the file
  with an integer element type only. The source leaves the elements uninitialised; they
  are zero here, and nothing reads them before the kernel has written them.
\<close>

definition Empty :: "nat \<Rightarrow> Dtype \<Rightarrow> Device \<Rightarrow> (Tensor, 'a) op" where
  "Empty n dt dev = new_ivec dt dev (replicate n 0)"

text \<open>Modelled from the spec: \<^verbatim>\<open>Tensor::Arange(0, stop, 1, dtype, device)\<close> (absent).\<close>

definition Arange :: "nat \<Rightarrow> Dtype \<Rightarrow> Device \<Rightarrow> (Tensor, 'a) op" where
  "Arange stop dt dev = new_ivec dt dev (map int [0..<stop])"

text \<open>
  Modelled from the spec: \<^verbatim>\<open>Tensor::To(device, dtype, copy)\<close> (absent) on an integer tensor:
  the cross-device, cross-type copy. A narrower signed type keeps the low bits.
\<close>

definition cast_int :: "Dtype \<Rightarrow> int \<Rightarrow> int" where
  "cast_int dt x = (if dt = Int32 then signed_take_bit 31 x
                    else if dt = Int64 then signed_take_bit 63 x else x)"

definition To :: "Tensor \<Rightarrow> Device \<Rightarrow> Dtype \<Rightarrow> bool \<Rightarrow> (Tensor, 'a) op" where
  "To t dev dt copy s =
     (if \<not> copy \<and> device t = dev \<and> dtype t = dt then returnE t s
      else new_ivec dt dev (map (cast_int dt) (idata s (blob t))) s)"

text \<open>
  Modelled from the spec: \<^verbatim>\<open>Tensor::Thiul()\<close> (absent): the pair (upper triangle with the
  diagonal, strict lower triangle with a unit diagonal), each a new tensor.
\<close>

definition Thiul :: "Tensor \<Rightarrow> (Tensor \<times> Tensor, 'a::comm_ring_1) op" where
  "Thiul t =
     bindE (\<lambda>s. new_mat (shape t ! 0) (shape t ! 1) (dtype t) (device t)
                  (triu (shape t ! 0) (shape t ! 1) (mat_of s t)) s) (\<lambda>upper.
     bindE (\<lambda>s. new_mat (shape t ! 0) (shape t ! 1) (dtype t) (device t)
                  (tril_unit (shape t ! 0) (shape t ! 1) (mat_of s t)) s) (\<lambda>lower.
     returnE (upper, lower)))"

text \<open>Modelled from the spec: \<^verbatim>\<open>Tensor::Eye(n, dtype, device)\<close> (absent), the identity.\<close>

definition Eye :: "nat \<Rightarrow> Dtype \<Rightarrow> Device \<Rightarrow> (Tensor, 'a::comm_ring_1) op" where
  "Eye n dt dev = new_mat n n dt dev (eye n)"

text \<open>
  Modelled from the spec: \<^verbatim>\<open>Tensor::IndexGet({index})\<close> (absent) with one index tensor, the
  indexed row gather: row \<open>i\<close> of the result is row \<open>index[i]\<close> of the source. An index
  outside the rows is \<open>OutOfBounds\<close>.
\<close>

definition gather :: "'b list \<Rightarrow> int list \<Rightarrow> 'b list" where
  "gather m ix = map (\<lambda>k. m ! nat k) ix"

definition IndexGet :: "Tensor \<Rightarrow> Tensor \<Rightarrow> (Tensor, 'a) op" where
  "IndexGet t index s =
     (let ix = idata s (blob index) in
      if list_all (\<lambda>k. 0 \<le> k \<and> k < int (shape t ! 0)) ix
      then new_mat (length ix) (shape t ! 1) (dtype t) (device t) (gather (mat_of s t) ix) s
      else throwE OutOfBounds s)"

text \<open>
  Modelled from the spec: \<^verbatim>\<open>Tensor::Inverse()\<close> (absent), the collaborator's general
  matrix inverse. The result is a transposed view of a new blob (the source's comment:
  ``After Inverse it is no longer Contiguous'').
\<close>

definition Inverse :: "'a backend \<Rightarrow> Tensor \<Rightarrow> (Tensor, 'a) op" where
  "Inverse be t s =
     (case inverse_impl be (mat_of s t) of
        Inl e \<Rightarrow> throwE e s
      | Inr x \<Rightarrow>
          bindE (new_mat (shape t ! 1) (shape t ! 0) (dtype t) (device t)
                   (transpose_mat (shape t ! 0) (shape t ! 1) x))
                (\<lambda>h. returnE (T h)) s)"

text \<open>
  Modelled from the spec: \<^verbatim>\<open>Tensor::Matmul\<close> (absent), the matrix product, on square
  operands of one size (the only use in the file).
\<close>

definition Matmul :: "Tensor \<Rightarrow> Tensor \<Rightarrow> (Tensor, 'a::comm_ring_1) op" where
  "Matmul a b s =
     new_mat (shape a ! 0) (shape a ! 0) (dtype a) (device a)
       (mat_mul (shape a ! 0) (mat_of s a) (mat_of s b)) s"

text \<open>
  Modelled from the spec: \<^verbatim>\<open>GetShape()[k]\<close> where the file has not checked the rank
  (the element access of the absent \<^verbatim>\<open>SizeVector\<close>); an index past the rank is
  \<open>OutOfBounds\<close>.
\<close>

definition shape_at :: "Tensor \<Rightarrow> nat \<Rightarrow> (nat, 'a) op" where
  "shape_at t k = (if k < length (shape t) then returnE (shape t ! k) else throwE OutOfBounds)"

text \<open>Modelled from the spec: \<^verbatim>\<open>utility::LogInfo\<close> (absent), the non-fatal diagnostic.\<close>

definition LogInfo :: "string \<Rightarrow> (unit, 'a) op" where
  "LogInfo msg s = (Inr (), s\<lparr>logged := logged s @ [msg]\<rparr>)"

text \<open>
  Modelled from the spec: \<^verbatim>\<open>LUCPU\<close> and \<^verbatim>\<open>LUCUDA\<close> (declared in \<^verbatim>\<open>LUImpl.h\<close>, absent)
  factor the column-major buffer at \<^verbatim>\<open>A_data\<close> in place and write the pivot array at
  \<^verbatim>\<open>ipiv_data\<close>; what they compute is the collaborator's routine. The invocation is
  recorded in \<open>kernels\<close>, also when the routine raises.
\<close>

definition LUCPU ::
  "'a backend \<Rightarrow> nat \<Rightarrow> nat \<Rightarrow> nat \<Rightarrow> Dtype \<Rightarrow> Device \<Rightarrow> (unit, 'a) op" where
  "LUCPU be A_data ipiv_data n dt dev s =
     (let s1 = s\<lparr>kernels := kernels s @ [LUCPU_kernel]\<rparr> in
      case getrf_cpu be n dt (fdata s A_data) of
        Inl e \<Rightarrow> (Inl e, s1)
      | Inr (buf, piv) \<Rightarrow>
          (Inr (), s1\<lparr>fdata := (fdata s)(A_data := buf), idata := (idata s)(ipiv_data := piv)\<rparr>))"

definition LUCUDA ::
  "'a backend \<Rightarrow> nat \<Rightarrow> nat \<Rightarrow> nat \<Rightarrow> Dtype \<Rightarrow> Device \<Rightarrow> (unit, 'a) op" where
  "LUCUDA be A_data ipiv_data n dt dev s =
     (let s1 = s\<lparr>kernels := kernels s @ [LUCUDA_kernel]\<rparr> in
      case getrf_cuda be n dt (fdata s A_data) of
        Inl e \<Rightarrow> (Inl e, s1)
      | Inr (buf, piv) \<Rightarrow>
          (Inr (), s1\<lparr>fdata := (fdata s)(A_data := buf), idata := (idata s)(ipiv_data := piv)\<rparr>))"

section \<open>The source\<close>

subsection \<open>\<^verbatim>\<open>LU_with_ipiv\<close>\<close>

text \<open>
  The reference parameters \<^verbatim>\<open>ipiv\<close> and \<^verbatim>\<open>output\<close> are passed in and returned: a
  parameter the call does not assign comes back as it was.
\<close>

definition LU_with_ipiv ::
  "build \<Rightarrow> 'a backend \<Rightarrow> Tensor \<Rightarrow> Tensor \<Rightarrow> Tensor \<Rightarrow> (Tensor \<times> Tensor, 'a) op" where
  "LU_with_ipiv cfg be A ipiv output =
     (let dev = device A;
          dt = dtype A
      in
      if dt \<noteq> Float32 \<and> dt \<noteq> Float64 then throwE UnsupportedDtype else
      let A_shape = shape A in
      if length A_shape \<noteq> 2 then throwE InvalidRank else
      if A_shape ! 0 \<noteq> A_shape ! 1 then throwE NotSquare else
      let n = A_shape ! 0 in
      if n = 0 then throwE EmptyDimension else
      bindE (Clone (T A)) (\<lambda>output.
      let A_data = blob output in
      bindE
        (if GetType dev = CUDA then
           (if BUILD_CUDA_MODULE cfg then
              bindE (Empty n Int32 dev) (\<lambda>ipiv.
              let ipiv_data = blob ipiv in
              bindE (LUCUDA be A_data ipiv_data n dt dev) (\<lambda>_.
              returnE ipiv))
            else
              bindE (LogInfo ''Unimplemented device.'') (\<lambda>_.
              returnE ipiv))
         else
           bindE
             (if sizeof_OPEN3D_CPU_LINALG_INT cfg = 4 then returnE Int32
              else if sizeof_OPEN3D_CPU_LINALG_INT cfg = 8 then returnE Int64
              else throwE UnsupportedIntegerWidth) (\<lambda>ipiv_dtype.
           bindE (Empty n ipiv_dtype dev) (\<lambda>ipiv.
           let ipiv_data = blob ipiv in
           bindE (LUCPU be A_data ipiv_data n dt dev) (\<lambda>_.
           returnE ipiv)))) (\<lambda>ipiv.
      bindE (Contiguous (T output)) (\<lambda>output.
      returnE (ipiv, output)))))"

subsection \<open>\<^verbatim>\<open>GetColPermutation\<close>\<close>

text \<open>
  The loop over the two raw \<^verbatim>\<open>int\<close> buffers. The source reads and writes without a
  check; an index outside either buffer is \<open>OutOfBounds\<close> here.
\<close>

function swap_loop :: "int list \<Rightarrow> nat \<Rightarrow> nat \<Rightarrow> int list \<Rightarrow> error + int list" where
  "swap_loop ipiv_ptr number_of_rows i full_ipiv_ptr =
     (if i < number_of_rows then
        (if i < length full_ipiv_ptr \<and> i < length ipiv_ptr
            \<and> 0 \<le> ipiv_ptr ! i - 1 \<and> ipiv_ptr ! i - 1 < int (length full_ipiv_ptr)
         then
           let temp = full_ipiv_ptr ! i;
               full_ipiv_ptr = full_ipiv_ptr[i := full_ipiv_ptr ! nat (ipiv_ptr ! i - 1)];
               full_ipiv_ptr = full_ipiv_ptr[nat (ipiv_ptr ! i - 1) := temp]
           in swap_loop ipiv_ptr number_of_rows (Suc i) full_ipiv_ptr
         else Inl OutOfBounds)
      else Inr full_ipiv_ptr)"
  by pat_completeness auto
termination
  by (relation "measure (\<lambda>(ipiv_ptr, number_of_rows, i, full_ipiv_ptr). number_of_rows - i)") auto

definition GetColPermutation :: "Tensor \<Rightarrow> nat \<Rightarrow> nat \<Rightarrow> (Tensor, 'a) op" where
  "GetColPermutation ipiv number_of_indices number_of_rows =
     bindE (Arange number_of_rows Int32 (Device CPU 0)) (\<lambda>full_ipiv.
     bindE (To ipiv (Device CPU 0) Int32 False) (\<lambda>ipiv_cpu.
     bindE (\<lambda>s. case swap_loop (idata s (blob ipiv_cpu)) number_of_rows 0
                        (idata s (blob full_ipiv)) of
                  Inl e \<Rightarrow> (Inl e, s)
                | Inr full \<Rightarrow> (Inr (), s\<lparr>idata := (idata s)(blob full_ipiv := full)\<rparr>)) (\<lambda>_.
     To full_ipiv (device ipiv) Int64 False)))"

subsection \<open>\<^verbatim>\<open>OutputToPLU\<close> and \<^verbatim>\<open>LU\<close>\<close>

text \<open>
  The reference parameters \<^verbatim>\<open>permutation\<close>, \<^verbatim>\<open>lower\<close> and \<^verbatim>\<open>upper\<close> are assigned on every
  path that returns, so they are results only.
\<close>

definition OutputToPLU ::
  "'a::comm_ring_1 backend \<Rightarrow> Tensor \<Rightarrow> Tensor \<Rightarrow> bool \<Rightarrow> (Tensor \<times> Tensor \<times> Tensor, 'a) op" where
  "OutputToPLU be output ipiv permute_l =
     bindE (shape_at output 0) (\<lambda>n.
     let dev = device output in
     bindE (Thiul output) (\<lambda>(upper, lower).
     bindE (shape_at ipiv 0) (\<lambda>number_of_indices.
     bindE (GetColPermutation ipiv number_of_indices n) (\<lambda>colPermutation.
     bindE (Eye n (dtype output) dev) (\<lambda>identity.
     bindE (IndexGet identity colPermutation) (\<lambda>permutation.
     bindE (Inverse be permutation) (\<lambda>inverted.
     bindE (Contiguous inverted) (\<lambda>permutation.
     bindE (if permute_l then Matmul permutation lower else returnE lower) (\<lambda>lower.
     returnE (permutation, lower, upper))))))))))"

definition LU ::
  "build \<Rightarrow> 'a::comm_ring_1 backend \<Rightarrow> Tensor \<Rightarrow> bool \<Rightarrow> (Tensor \<times> Tensor \<times> Tensor, 'a) op" where
  "LU cfg be A permute_l =
     bindE Tensor_default (\<lambda>ipiv.
     bindE Tensor_default (\<lambda>output.
     bindE (LU_with_ipiv cfg be A ipiv output) (\<lambda>(ipiv, output).
     OutputToPLU be output ipiv permute_l)))"

section \<open>The vocabulary of the specification\<close>

subsection \<open>The permutation decoder\<close>

text \<open>
  The decoder as the specification words it (section 4.2): start from the identity
  sequence \<open>full[i] = i\<close> and, for \<open>i\<close> from \<open>0\<close> to \<open>n - 1\<close> in increasing order, swap
  \<open>full[i]\<close> and \<open>full[pivotArray[i] - 1]\<close>. \<open>replay\<close> applies that swap log to any list
  (to the identity sequence for the decoder, to the rows of a matrix for the row
  interchanges the kernel performed); \<open>decoded\<close> is the full permutation index vector.
\<close>

definition swap_at :: "'b list \<Rightarrow> nat \<Rightarrow> nat \<Rightarrow> 'b list" where
  "swap_at xs i k = (xs[i := xs ! k])[k := xs ! i]"

definition replay :: "int list \<Rightarrow> 'b list \<Rightarrow> 'b list" where
  "replay pivotArray xs =
     foldl (\<lambda>full i. swap_at full i (nat (pivotArray ! i - 1))) xs [0..<length xs]"

definition decoded :: "int list \<Rightarrow> int list" where
  "decoded piv = replay piv (map int [0..<length piv])"

text \<open>A pivot array of length \<open>n\<close> with 1-based entries in \<open>[1, n]\<close>.\<close>

definition valid_pivots :: "nat \<Rightarrow> int list \<Rightarrow> bool" where
  "valid_pivots n piv \<longleftrightarrow> length piv = n \<and> list_all (\<lambda>x. 1 \<le> x \<and> x \<le> int n) piv"

text \<open>A permutation index vector: the numbers \<open>0..n-1\<close>, each once.\<close>

definition is_perm :: "nat \<Rightarrow> int list \<Rightarrow> bool" where
  "is_perm n p \<longleftrightarrow> length p = n \<and> distinct p \<and> list_all (\<lambda>x. 0 \<le> x \<and> x < int n) p"

subsection \<open>Shapes of the factors\<close>

text \<open>
  A permutation matrix: exactly one entry equal to 1 in each row and in each column
  (the rows of the transpose), every other entry 0.
\<close>

definition row_ok :: "'a::comm_ring_1 list \<Rightarrow> bool" where
  "row_ok r \<longleftrightarrow> length (filter (\<lambda>x. x = 1) r) = 1 \<and> list_all (\<lambda>x. x = 0 \<or> x = 1) r"

definition is_permutation_matrix :: "nat \<Rightarrow> 'a::comm_ring_1 list list \<Rightarrow> bool" where
  "is_permutation_matrix n p \<longleftrightarrow>
     mat_ok n n p \<and> list_all row_ok p \<and> list_all row_ok (transpose_mat n n p)"

definition is_upper :: "nat \<Rightarrow> 'a::comm_ring_1 list list \<Rightarrow> bool" where
  "is_upper n u \<longleftrightarrow>
     mat_ok n n u \<and> list_all (\<lambda>i. list_all (\<lambda>j. u ! i ! j = 0) [0..<i]) [0..<n]"

definition is_unit_lower :: "nat \<Rightarrow> 'a::comm_ring_1 list list \<Rightarrow> bool" where
  "is_unit_lower n l \<longleftrightarrow>
     mat_ok n n l
     \<and> list_all (\<lambda>i. l ! i ! i = 1 \<and> list_all (\<lambda>j. l ! i ! j = 0) [Suc i..<n]) [0..<n]"

subsection \<open>Inputs and collaborators\<close>

text \<open>An input that passes the driver's four checks, of dimension \<open>n\<close>.\<close>

definition valid_input :: "nat \<Rightarrow> Tensor \<Rightarrow> bool" where
  "valid_input n A \<longleftrightarrow> (dtype A = Float32 \<or> dtype A = Float64) \<and> shape A = [n, n] \<and> 0 < n"

text \<open>
  The routine the driver dispatches to on a device, and the builds in which the dispatch
  reaches a kernel: accelerator support compiled in for an accelerator device, a host
  pivot integer of 4 or 8 bytes for the host.
\<close>

definition getrf_of ::
  "'a backend \<Rightarrow> Device \<Rightarrow> nat \<Rightarrow> Dtype \<Rightarrow> 'a list \<Rightarrow> error + 'a list \<times> int list" where
  "getrf_of be dev = (if GetType dev = CUDA then getrf_cuda be else getrf_cpu be)"

definition dispatch_ok :: "build \<Rightarrow> Device \<Rightarrow> bool" where
  "dispatch_ok cfg dev \<longleftrightarrow>
     (if GetType dev = CUDA then BUILD_CUDA_MODULE cfg
      else sizeof_OPEN3D_CPU_LINALG_INT cfg = 4 \<or> sizeof_OPEN3D_CPU_LINALG_INT cfg = 8)"

text \<open>The \<open>n \<times> n\<close> matrix a buffer holds in column-major order.\<close>

definition col_major :: "nat \<Rightarrow> 'a list \<Rightarrow> 'a list list" where
  "col_major n buf = mk_mat n n (\<lambda>i j. buf ! (j * n + i))"

text \<open>
  Modelled from the spec: the contract of the factorization kernel (absent; sections 1 and
  3). Given the matrix \<open>a\<close>, it returns the combined buffer, whose strict lower triangle
  holds the off-diagonal entries of \<open>L\<close> and whose upper triangle holds \<open>U\<close>, and a pivot
  array with 1-based entries that is a sequential swap log: the rows of \<open>a\<close>, interchanged
  as the log says, are \<open>L \<cdot> U\<close>.
\<close>

definition getrf_contract ::
  "nat \<Rightarrow> 'a::comm_ring_1 list list \<Rightarrow> 'a list \<Rightarrow> int list \<Rightarrow> bool" where
  "getrf_contract n a buf piv \<longleftrightarrow>
     valid_pivots n piv
     \<and> replay piv a = mat_mul n (tril_unit n n (col_major n buf)) (triu n n (col_major n buf))"

text \<open>
  Modelled from the spec: the contract of the matrix inverse (absent; section 6): \<open>x\<close> is a
  two-sided inverse of \<open>g\<close>.
\<close>

definition is_inverse :: "nat \<Rightarrow> 'a::comm_ring_1 list list \<Rightarrow> 'a list list \<Rightarrow> bool" where
  "is_inverse n g x \<longleftrightarrow> mat_ok n n x \<and> mat_mul n g x = eye n \<and> mat_mul n x g = eye n"

subsection \<open>What a call leaves behind\<close>

text \<open>
  \<open>frame s s'\<close>: every blob that exists in \<open>s\<close> holds the same elements in \<open>s'\<close>; a call
  that relates its initial and final memory so has written to fresh blobs only.
  \<open>keeps b m\<close>: the operation \<open>m\<close>, started in any memory whose blobs below \<open>b\<close> exist,
  leaves those blobs as they are, whether it returns or raises.
\<close>

definition frame :: "'a state \<Rightarrow> 'a state \<Rightarrow> bool" where
  "frame s s' \<longleftrightarrow>
     next_blob s \<le> next_blob s'
     \<and> (\<forall>a<next_blob s. fdata s' a = fdata s a \<and> idata s' a = idata s a)"

definition keeps :: "nat \<Rightarrow> ('r, 'a) op \<Rightarrow> bool" where
  "keeps b m \<longleftrightarrow>
     (\<forall>s. b \<le> next_blob s \<longrightarrow>
        next_blob s \<le> next_blob (snd (m s))
        \<and> (\<forall>a<b. fdata (snd (m s)) a = fdata s a \<and> idata (snd (m s)) a = idata s a))"

text \<open>
  The results of the two entry points as values: the matrices the returned handles denote
  in the final memory (for \<^verbatim>\<open>LU_with_ipiv\<close>, the pivot handle and the combined matrix).
\<close>

definition LU_values ::
  "build \<Rightarrow> 'a::comm_ring_1 backend \<Rightarrow> Tensor \<Rightarrow> bool \<Rightarrow> 'a state
     \<Rightarrow> error + 'a list list \<times> 'a list list \<times> 'a list list" where
  "LU_values cfg be A permute_l s =
     (case LU cfg be A permute_l s of
        (Inl e, s') \<Rightarrow> Inl e
      | (Inr (P, L, U), s') \<Rightarrow> Inr (mat_of s' P, mat_of s' L, mat_of s' U))"

definition LU_with_ipiv_values ::
  "build \<Rightarrow> 'a backend \<Rightarrow> Tensor \<Rightarrow> Tensor \<Rightarrow> Tensor \<Rightarrow> 'a state
     \<Rightarrow> error + Tensor \<times> 'a list list" where
  "LU_with_ipiv_values cfg be A ipiv output s =
     (case LU_with_ipiv cfg be A ipiv output s of
        (Inl e, s') \<Rightarrow> Inl e
      | (Inr (ipiv', output'), s') \<Rightarrow> Inr (ipiv', mat_of s' output'))"

subsection \<open>Concrete inputs\<close>

text \<open>
  A host build with 4-byte pivot integers and no accelerator support, a build with
  accelerator support, and a build whose host pivot integer is 2 bytes wide.
\<close>

definition ex_build :: build where
  "ex_build = \<lparr>BUILD_CUDA_MODULE = False, sizeof_OPEN3D_CPU_LINALG_INT = 4\<rparr>"

definition ex_build_cuda :: build where
  "ex_build_cuda = \<lparr>BUILD_CUDA_MODULE = True, sizeof_OPEN3D_CPU_LINALG_INT = 4\<rparr>"

definition ex_build_int16 :: build where
  "ex_build_int16 = \<lparr>BUILD_CUDA_MODULE = False, sizeof_OPEN3D_CPU_LINALG_INT = 2\<rparr>"

text \<open>
  A memory with three blobs: the matrix with rows \<open>(0, 0, 2)\<close>, \<open>(4, 2, 0)\<close>, \<open>(2, 3, 1)\<close> in
  blob 0, and two tensors without elements (what a caller passes for \<^verbatim>\<open>ipiv\<close> and
  \<^verbatim>\<open>output\<close>). The same matrix is read by a host tensor and by an accelerator tensor.
\<close>

definition ex_state :: "rat state" where
  "ex_state = \<lparr>fdata = (\<lambda>_. [])(0 := [0, 0, 2,  4, 2, 0,  2, 3, 1]), idata = (\<lambda>_. []),
               next_blob = 3, logged = [], kernels = []\<rparr>"

definition ex_A :: Tensor where
  "ex_A = \<lparr>shape = [3, 3], strides = [3, 1], blob = 0, dtype = Float64, device = Device CPU 0\<rparr>"

definition ex_cuda_A :: Tensor where
  "ex_cuda_A = \<lparr>shape = [3, 3], strides = [3, 1], blob = 0, dtype = Float64, device = Device CUDA 0\<rparr>"

definition ex_ipiv :: Tensor where
  "ex_ipiv = \<lparr>shape = [0], strides = [1], blob = 1, dtype = Undefined, device = Device CPU 0\<rparr>"

definition ex_output :: Tensor where
  "ex_output = \<lparr>shape = [0], strides = [1], blob = 2, dtype = Undefined, device = Device CPU 0\<rparr>"

text \<open>
  The collaborators at this matrix. Partial pivoting takes row 2 (the entry 4) for column
  1 and, after the elimination, row 3 for column 2, so the pivot array is \<open>[2, 3, 3]\<close>, the
  factors are \<open>L\<close> with rows \<open>(1, 0, 0)\<close>, \<open>(1/2, 1, 0)\<close>, \<open>(0, 0, 1)\<close> and \<open>U\<close> with rows
  \<open>(4, 2, 0)\<close>, \<open>(0, 2, 1)\<close>, \<open>(0, 0, 2)\<close>, and the combined buffer holds them column by
  column. The inverse of the permutation matrix met there is its transpose. Every value
  is a dyadic rational, exact in binary floating point.
\<close>

definition ex_backend :: "rat backend" where
  "ex_backend =
     \<lparr>getrf_cpu = (\<lambda>n dt buf.
        if n = 3 \<and> buf = [0, 4, 2,  0, 2, 3,  2, 0, 1]
        then Inr ([4, 1 / 2, 0,  2, 2, 0,  0, 1, 2], [2, 3, 3]) else Inl BackendError),
      getrf_cuda = (\<lambda>n dt buf. Inl BackendError),
      inverse_impl = (\<lambda>m.
        if m = [[0, 1, 0], [0, 0, 1], [1, 0, 0]]
        then Inr [[0, 0, 1], [1, 0, 0], [0, 1, 0]] else Inl BackendError)\<rparr>"

text \<open>The pivot array \<open>[2, 2, 3]\<close> of a \<open>3 \<times> 3\<close> problem, as a host tensor.\<close>

definition ex_pivot_tensor :: Tensor where
  "ex_pivot_tensor = \<lparr>shape = [3], strides = [1], blob = 0, dtype = Int32, device = Device CPU 0\<rparr>"

definition ex_pivot_state :: "rat state" where
  "ex_pivot_state = \<lparr>fdata = (\<lambda>_. []), idata = (\<lambda>_. [])(0 := [2, 2, 3]),
               next_blob = 1, logged = [], kernels = []\<rparr>"

text \<open>Inputs the driver rejects: integer elements, rank 1, \<open>3 \<times> 4\<close>, \<open>0 \<times> 0\<close>.\<close>

definition ex_int_A :: Tensor where
  "ex_int_A = \<lparr>shape = [3, 3], strides = [3, 1], blob = 0, dtype = Int32, device = Device CPU 0\<rparr>"

definition ex_vector_A :: Tensor where
  "ex_vector_A = \<lparr>shape = [3], strides = [1], blob = 0, dtype = Float32, device = Device CPU 0\<rparr>"

definition ex_3x4_A :: Tensor where
  "ex_3x4_A = \<lparr>shape = [3, 4], strides = [4, 1], blob = 0, dtype = Float32, device = Device CPU 0\<rparr>"

definition ex_cuda_3x4_A :: Tensor where
  "ex_cuda_3x4_A = \<lparr>shape = [3, 4], strides = [4, 1], blob = 0, dtype = Float32, device = Device CUDA 0\<rparr>"

definition ex_0x0_A :: Tensor where
  "ex_0x0_A = \<lparr>shape = [0, 0], strides = [1, 1], blob = 0, dtype = Float64, device = Device CPU 0\<rparr>"

section \<open>Matrices\<close>

subsection \<open>Tabulated matrices and their entries\<close>

lemma length_mk_mat [simp]: "length (mk_mat r c f) = r"
  by (simp add: mk_mat_def)

lemma mk_mat_row [simp]: "i < r \<Longrightarrow> mk_mat r c f ! i = map (f i) [0..<c]"
  by (simp add: mk_mat_def)

lemma mk_mat_nth: "i < r \<Longrightarrow> j < c \<Longrightarrow> mk_mat r c f ! i ! j = f i j"
  by simp

lemma mat_ok_mk_mat [simp]: "mat_ok r c (mk_mat r c f)"
  by (simp add: mat_ok_def mk_mat_def list_all_iff)

lemma mat_ok_row: "mat_ok r c m \<Longrightarrow> i < r \<Longrightarrow> length (m ! i) = c"
  by (simp add: mat_ok_def list_all_length)

lemma mat_eqI:
  assumes "mat_ok r c a" "mat_ok r c b" "\<And>i j. i < r \<Longrightarrow> j < c \<Longrightarrow> a ! i ! j = b ! i ! j"
  shows "a = b"
proof (rule nth_equalityI)
  show "length a = length b" using assms by (simp add: mat_ok_def)
next
  fix i assume "i < length a"
  then have i: "i < r" using assms(1) by (simp add: mat_ok_def)
  show "a ! i = b ! i"
    by (rule nth_equalityI) (use i assms in \<open>simp_all add: mat_ok_row\<close>)
qed

lemma mk_mat_cong:
  "(\<And>i j. i < r \<Longrightarrow> j < c \<Longrightarrow> f i j = g i j) \<Longrightarrow> mk_mat r c f = mk_mat r c g"
  by (simp add: mk_mat_def)

lemma flatten_nth: "i < r \<Longrightarrow> j < c \<Longrightarrow> flatten r c m ! (i * c + j) = m ! i ! j"
proof -
  assume i: "i < r" and j: "j < c"
  have "i * c + j < Suc i * c" using j by simp
  also have "\<dots> \<le> r * c" using i by (simp only: Suc_le_eq[symmetric] mult_le_mono1)
  finally have "i * c + j < r * c" .
  then show ?thesis using j by (simp add: flatten_def)
qed

lemma transpose_mat_twice: "mat_ok r c m \<Longrightarrow> transpose_mat c r (transpose_mat r c m) = m"
  by (rule mat_eqI [of r c]) (simp_all add: transpose_mat_def)

subsection \<open>The matrix product\<close>

lemma mat_mul_ok [simp]: "mat_ok n n (mat_mul n a b)"
  by (simp add: mat_mul_def)

lemma mat_mul_nth:
  "i < n \<Longrightarrow> j < n \<Longrightarrow> mat_mul n a b ! i ! j = (\<Sum>k = 0..<n. a ! i ! k * b ! k ! j)"
  by (simp add: mat_mul_def interv_sum_list_conv_sum_set_nat)

lemma eye_ok [simp]: "mat_ok n n (eye n)"
  by (simp add: eye_def)

lemma eye_nth: "i < n \<Longrightarrow> j < n \<Longrightarrow> eye n ! i ! j = (if i = j then 1 else 0)"
  by (simp add: eye_def)

lemma mat_mul_assoc: "mat_mul n (mat_mul n a b) c = mat_mul n a (mat_mul n b c)"
proof (rule mat_eqI [of n n])
  fix i j assume ij: "i < n" "j < n"
  have "mat_mul n (mat_mul n a b) c ! i ! j
      = (\<Sum>k = 0..<n. (\<Sum>l = 0..<n. a ! i ! l * b ! l ! k) * c ! k ! j)"
    using ij by (simp add: mat_mul_nth)
  also have "\<dots> = (\<Sum>k = 0..<n. \<Sum>l = 0..<n. a ! i ! l * (b ! l ! k * c ! k ! j))"
    by (simp add: sum_distrib_right mult.assoc)
  also have "\<dots> = (\<Sum>l = 0..<n. \<Sum>k = 0..<n. a ! i ! l * (b ! l ! k * c ! k ! j))"
    by (rule sum.swap)
  also have "\<dots> = (\<Sum>l = 0..<n. a ! i ! l * (\<Sum>k = 0..<n. b ! l ! k * c ! k ! j))"
    by (simp add: sum_distrib_left)
  also have "\<dots> = mat_mul n a (mat_mul n b c) ! i ! j"
    using ij by (simp add: mat_mul_nth)
  finally show "mat_mul n (mat_mul n a b) c ! i ! j = mat_mul n a (mat_mul n b c) ! i ! j" .
qed simp_all

lemma mat_mul_eye_left: "mat_ok n n a \<Longrightarrow> mat_mul n (eye n) a = a"
proof (rule mat_eqI [of n n])
  fix i j assume ij: "i < n" "j < n"
  have "mat_mul n (eye n) a ! i ! j = (\<Sum>k = 0..<n. eye n ! i ! k * a ! k ! j)"
    using ij by (simp add: mat_mul_nth)
  also have "\<dots> = (\<Sum>k = 0..<n. (if k = i then a ! k ! j else 0))"
    by (rule sum.cong) (use ij in \<open>simp_all add: eye_nth\<close>)
  also have "\<dots> = a ! i ! j" using ij by simp
  finally show "mat_mul n (eye n) a ! i ! j = a ! i ! j" .
qed simp_all

lemma mat_mul_eye_right: "mat_ok n n a \<Longrightarrow> mat_mul n a (eye n) = a"
proof (rule mat_eqI [of n n])
  fix i j assume ij: "i < n" "j < n"
  have "mat_mul n a (eye n) ! i ! j = (\<Sum>k = 0..<n. a ! i ! k * eye n ! k ! j)"
    using ij by (simp add: mat_mul_nth)
  also have "\<dots> = (\<Sum>k = 0..<n. (if k = j then a ! i ! k else 0))"
    by (rule sum.cong) (use ij in \<open>simp_all add: eye_nth\<close>)
  also have "\<dots> = a ! i ! j" using ij by simp
  finally show "mat_mul n a (eye n) ! i ! j = a ! i ! j" .
qed simp_all

text \<open>A left inverse and a right inverse of the same matrix are equal.\<close>

lemma inverse_unique:
  assumes "mat_ok n n x" "mat_ok n n y" "mat_mul n x g = eye n" "mat_mul n g y = eye n"
  shows "x = y"
proof -
  have "x = mat_mul n x (eye n)" using assms(1) by (simp add: mat_mul_eye_right)
  also have "\<dots> = mat_mul n (mat_mul n x g) y" by (simp add: assms(4) mat_mul_assoc)
  also have "\<dots> = y" using assms(2,3) by (simp add: mat_mul_eye_left)
  finally show ?thesis .
qed

section \<open>The permutation decoder\<close>

subsection \<open>The loop replays the swap log\<close>

lemma length_swap_at [simp]: "length (swap_at xs i k) = length xs"
  by (simp add: swap_at_def)

lemma valid_pivots_nth:
  "valid_pivots n piv \<Longrightarrow> i < n \<Longrightarrow> 1 \<le> piv ! i \<and> piv ! i \<le> int n"
  by (simp add: valid_pivots_def list_all_length)

lemma swap_loop_foldl:
  "valid_pivots n piv \<Longrightarrow> length full = n \<Longrightarrow>
   swap_loop piv n i full
     = Inr (foldl (\<lambda>full i. swap_at full i (nat (piv ! i - 1))) full [i..<n])"
proof (induction piv n i full rule: swap_loop.induct)
  case (1 ipiv_ptr number_of_rows i full_ipiv_ptr)
  show ?case
  proof (cases "i < number_of_rows")
    case False
    then show ?thesis by simp
  next
    case True
    have len: "length ipiv_ptr = number_of_rows"
      using "1.prems" by (simp add: valid_pivots_def)
    have rng: "1 \<le> ipiv_ptr ! i" "ipiv_ptr ! i \<le> int number_of_rows"
      using valid_pivots_nth [OF "1.prems"(1) True] by simp_all
    have guard: "i < length full_ipiv_ptr \<and> i < length ipiv_ptr
       \<and> 0 \<le> ipiv_ptr ! i - 1 \<and> ipiv_ptr ! i - 1 < int (length full_ipiv_ptr)"
      using True len rng "1.prems"(2) by simp
    have step: "swap_loop ipiv_ptr number_of_rows (Suc i)
          (swap_at full_ipiv_ptr i (nat (ipiv_ptr ! i - 1)))
        = Inr (foldl (\<lambda>full i. swap_at full i (nat (ipiv_ptr ! i - 1)))
            (swap_at full_ipiv_ptr i (nat (ipiv_ptr ! i - 1))) [Suc i..<number_of_rows])"
      using "1.IH" [OF True guard refl refl refl "1.prems"(1)] "1.prems"(2)
      by (simp add: swap_at_def Let_def)
    have "swap_loop ipiv_ptr number_of_rows i full_ipiv_ptr
        = swap_loop ipiv_ptr number_of_rows (Suc i)
            (swap_at full_ipiv_ptr i (nat (ipiv_ptr ! i - 1)))"
      using True guard by (subst swap_loop.simps) (simp add: swap_at_def Let_def)
    also note step
    finally show ?thesis using True by (simp add: upt_conv_Cons)
  qed
qed

lemma swap_loop_replay:
  "valid_pivots n piv \<Longrightarrow> swap_loop piv n 0 (map int [0..<n]) = Inr (decoded piv)"
  using swap_loop_foldl [of n piv "map int [0..<n]" 0]
  by (simp add: decoded_def replay_def valid_pivots_def)

lemma map_swap_at:
  "i < length xs \<Longrightarrow> k < length xs \<Longrightarrow> map f (swap_at xs i k) = swap_at (map f xs) i k"
  by (simp add: swap_at_def map_update)

lemma map_foldl_swap:
  "(\<And>i. i \<in> set is \<Longrightarrow> i < length xs \<and> g i < length xs) \<Longrightarrow>
   map f (foldl (\<lambda>full i. swap_at full i (g i)) xs is)
     = foldl (\<lambda>full i. swap_at full i (g i)) (map f xs) is"
  by (induction "is" arbitrary: xs) (simp_all add: map_swap_at)

lemma nat_pivot_less: "valid_pivots n piv \<Longrightarrow> i < n \<Longrightarrow> nat (piv ! i - 1) < n"
  using valid_pivots_nth [of n piv i] by auto

lemma gather_decoded:
  assumes "valid_pivots n piv" "length m = n"
  shows "gather m (decoded piv) = replay piv m"
proof -
  have n: "length piv = n" using assms by (simp add: valid_pivots_def)
  have "gather m (decoded piv)
      = map (\<lambda>k. m ! nat k)
          (foldl (\<lambda>full i. swap_at full i (nat (piv ! i - 1))) (map int [0..<n]) [0..<n])"
    by (simp add: gather_def decoded_def replay_def n)
  also have "\<dots> = foldl (\<lambda>full i. swap_at full i (nat (piv ! i - 1)))
                     (map (\<lambda>k. m ! nat k) (map int [0..<n])) [0..<n]"
    by (rule map_foldl_swap) (use assms in \<open>simp add: nat_pivot_less\<close>)
  also have "map (\<lambda>k. m ! nat k) (map int [0..<n]) = m"
    using map_nth [of m] assms(2) by (simp add: o_def)
  finally show ?thesis using assms(2) by (simp add: replay_def)
qed

text \<open>The decoded sequence is a permutation of \<open>0..n-1\<close>.\<close>

lemma distinct_swap_at:
  "i < length xs \<Longrightarrow> k < length xs \<Longrightarrow> distinct (swap_at xs i k) = distinct xs"
  by (simp add: swap_at_def distinct_swap)

lemma set_swap_at:
  "i < length xs \<Longrightarrow> k < length xs \<Longrightarrow> set (swap_at xs i k) = set xs"
  by (simp add: swap_at_def set_swap)

lemma foldl_swap_perm:
  "(\<And>i. i \<in> set is \<Longrightarrow> i < length xs \<and> g i < length xs) \<Longrightarrow>
   length (foldl (\<lambda>full i. swap_at full i (g i)) xs is) = length xs
   \<and> distinct (foldl (\<lambda>full i. swap_at full i (g i)) xs is) = distinct xs
   \<and> set (foldl (\<lambda>full i. swap_at full i (g i)) xs is) = set xs"
  by (induction "is" arbitrary: xs) (simp_all add: distinct_swap_at set_swap_at)

lemma decoded_perm:
  assumes "valid_pivots n piv"
  shows "length (decoded piv) = n" "distinct (decoded piv)"
    "set (decoded piv) = int ` {0..<n}"
proof -
  have n: "length piv = n" using assms by (simp add: valid_pivots_def)
  have *: "\<And>i. i \<in> set [0..<n] \<Longrightarrow>
      i < length (map int [0..<n]) \<and> nat (piv ! i - 1) < length (map int [0..<n])"
    using assms by (simp add: nat_pivot_less)
  note f = foldl_swap_perm [of "[0..<n]" "map int [0..<n]" "\<lambda>i. nat (piv ! i - 1)", OF *]
  show "length (decoded piv) = n" using f by (simp add: decoded_def replay_def n)
  show "distinct (decoded piv)" using f by (simp add: decoded_def replay_def n distinct_map)
  show "set (decoded piv) = int ` {0..<n}" using f by (simp add: decoded_def replay_def n)
qed

subsection \<open>The gathered identity is a permutation matrix\<close>

lemma is_perm_decoded: "valid_pivots n piv \<Longrightarrow> is_perm n (decoded piv)"
  using decoded_perm [of n piv] by (auto simp: is_perm_def list_all_iff)

lemma is_perm_nth: "is_perm n p \<Longrightarrow> i < n \<Longrightarrow> 0 \<le> p ! i \<and> nat (p ! i) < n"
  by (auto simp: is_perm_def list_all_length)

lemma is_perm_inj: "is_perm n p \<Longrightarrow> i < n \<Longrightarrow> j < n \<Longrightarrow> nat (p ! i) = nat (p ! j) \<longleftrightarrow> i = j"
proof -
  assume p: "is_perm n p" and i: "i < n" and j: "j < n"
  have "nat (p ! i) = nat (p ! j) \<longleftrightarrow> p ! i = p ! j"
    using is_perm_nth [OF p i] is_perm_nth [OF p j] by auto
  also have "\<dots> \<longleftrightarrow> i = j"
    using p i j by (simp add: is_perm_def nth_eq_iff_index_eq)
  finally show ?thesis .
qed

lemma is_perm_surj:
  assumes "is_perm n p" "j < n"
  shows "\<exists>k<n. nat (p ! k) = j"
proof -
  have sub: "set p \<subseteq> int ` {0..<n}"
  proof
    fix x assume "x \<in> set p"
    then have "0 \<le> x" "x < int n" using assms(1) by (auto simp: is_perm_def list_all_iff)
    then have "x = int (nat x)" "nat x \<in> {0..<n}" by auto
    then show "x \<in> int ` {0..<n}" by (rule image_eqI)
  qed
  have "card (set p) = n" using assms(1) by (simp add: is_perm_def distinct_card)
  then have "card (set p) = card (int ` {0..<n})" by (simp add: card_image)
  with sub have "set p = int ` {0..<n}" by (simp add: card_subset_eq)
  then have "int j \<in> set p" using assms(2) by simp
  then obtain k where "k < length p" "p ! k = int j" by (auto simp: in_set_conv_nth)
  then show ?thesis using assms(1) by (auto simp: is_perm_def)
qed

lemma gather_ok: "is_perm n p \<Longrightarrow> mat_ok n c m \<Longrightarrow> mat_ok n c (gather m p)"
  by (auto simp: mat_ok_def gather_def is_perm_def list_all_length)

lemma gather_nth: "is_perm n p \<Longrightarrow> i < n \<Longrightarrow> gather m p ! i = m ! nat (p ! i)"
  by (simp add: gather_def is_perm_def)

lemma gather_eye_nth:
  "is_perm n p \<Longrightarrow> i < n \<Longrightarrow> j < n \<Longrightarrow>
   gather (eye n) p ! i ! j = (if nat (p ! i) = j then 1 else 0)"
  using is_perm_nth [of n p i] by (simp add: gather_nth eye_nth)

lemma gather_eye_mul:
  assumes p: "is_perm n p" and a: "mat_ok n n a"
  shows "mat_mul n (gather (eye n) p) a = gather a p"
proof (rule mat_eqI [of n n])
  fix i j assume ij: "i < n" "j < n"
  have k: "nat (p ! i) < n" using is_perm_nth [OF p ij(1)] by simp
  have "mat_mul n (gather (eye n) p) a ! i ! j
      = (\<Sum>k = 0..<n. gather (eye n) p ! i ! k * a ! k ! j)"
    using ij by (simp add: mat_mul_nth)
  also have "\<dots> = (\<Sum>k = 0..<n. (if k = nat (p ! i) then a ! k ! j else 0))"
    by (rule sum.cong) (use ij p in \<open>auto simp: gather_eye_nth\<close>)
  also have "\<dots> = a ! nat (p ! i) ! j" using k by simp
  finally show "mat_mul n (gather (eye n) p) a ! i ! j = gather a p ! i ! j"
    using p ij by (simp add: gather_nth)
qed (use assms in \<open>simp_all add: gather_ok\<close>)

lemma transpose_ok [simp]: "mat_ok c r (transpose_mat r c m)"
  by (simp add: transpose_mat_def)

lemma length_transpose [simp]: "length (transpose_mat r c m) = c"
  by (simp add: transpose_mat_def)

lemma transpose_nth: "i < c \<Longrightarrow> j < r \<Longrightarrow> transpose_mat r c m ! i ! j = m ! j ! i"
  by (simp add: transpose_mat_def)

lemma gather_eye_transpose_right:
  assumes p: "is_perm n p"
  shows "mat_mul n (gather (eye n) p) (transpose_mat n n (gather (eye n) p)) = eye n"
proof (rule mat_eqI [of n n])
  fix i j assume ij: "i < n" "j < n"
  have k: "nat (p ! i) < n" using is_perm_nth [OF p ij(1)] by simp
  have "mat_mul n (gather (eye n) p) (transpose_mat n n (gather (eye n) p)) ! i ! j
      = (\<Sum>k = 0..<n. gather (eye n) p ! i ! k * transpose_mat n n (gather (eye n) p) ! k ! j)"
    using ij by (simp add: mat_mul_nth)
  also have "\<dots> = (\<Sum>k = 0..<n. (if k = nat (p ! i) then (if nat (p ! j) = k then 1 else 0) else 0))"
    by (rule sum.cong) (use ij p in \<open>auto simp: gather_eye_nth transpose_nth\<close>)
  also have "\<dots> = (if nat (p ! j) = nat (p ! i) then 1 else 0)" using k by simp
  also have "\<dots> = eye n ! i ! j"
    using is_perm_inj [OF p ij(2) ij(1)] ij by (auto simp: eye_nth)
  finally show "mat_mul n (gather (eye n) p) (transpose_mat n n (gather (eye n) p)) ! i ! j
      = eye n ! i ! j" .
qed simp_all

lemma gather_eye_transpose_left:
  assumes p: "is_perm n p"
  shows "mat_mul n (transpose_mat n n (gather (eye n) p)) (gather (eye n) p) = eye n"
proof (rule mat_eqI [of n n])
  fix i j assume ij: "i < n" "j < n"
  obtain k0 where k0: "k0 < n" "nat (p ! k0) = i" using is_perm_surj [OF p ij(1)] by blast
  have "mat_mul n (transpose_mat n n (gather (eye n) p)) (gather (eye n) p) ! i ! j
      = (\<Sum>k = 0..<n. transpose_mat n n (gather (eye n) p) ! i ! k * gather (eye n) p ! k ! j)"
    using ij by (simp add: mat_mul_nth)
  also have "\<dots> = (\<Sum>k = 0..<n. (if k = k0 then (if nat (p ! k0) = j then 1 else 0) else 0))"
  proof (rule sum.cong)
    fix k assume "k \<in> {0..<n}"
    then have kn: "k < n" by simp
    have "nat (p ! k) = i \<longleftrightarrow> k = k0"
      using is_perm_inj [OF p kn k0(1)] k0(2) by auto
    then show "transpose_mat n n (gather (eye n) p) ! i ! k * gather (eye n) p ! k ! j
        = (if k = k0 then (if nat (p ! k0) = j then 1 else 0) else 0)"
      using kn ij p by (auto simp: gather_eye_nth transpose_nth)
  qed simp
  also have "\<dots> = (if nat (p ! k0) = j then 1 else 0)" using k0(1) by simp
  also have "\<dots> = eye n ! i ! j" using k0(2) ij by (auto simp: eye_nth)
  finally show "mat_mul n (transpose_mat n n (gather (eye n) p)) (gather (eye n) p) ! i ! j
      = eye n ! i ! j" .
qed simp_all

text \<open>So the transpose of a gathered identity meets the contract of the inverse.\<close>

lemma transpose_is_inverse:
  "is_perm n p \<Longrightarrow> is_inverse n (gather (eye n) p) (transpose_mat n n (gather (eye n) p))"
  by (simp add: is_inverse_def gather_eye_transpose_right gather_eye_transpose_left)

lemma count_index_eq: "k < n \<Longrightarrow> length (filter (\<lambda>j. j = k) [0..<n]) = 1"
  by (induction n) (auto simp: less_Suc_eq)

lemma filter_one_map:
  "filter (\<lambda>x. x = (1::'a::comm_ring_1)) (map (\<lambda>j. if P j then 1 else 0) xs)
     = map (\<lambda>j. 1) (filter P xs)"
  by (induction xs) auto

lemma perm_row_ok:
  assumes p: "is_perm n p" and i: "i < n"
  shows "row_ok ((gather (eye n) p :: 'a::comm_ring_1 list list) ! i)"
proof -
  have k: "nat (p ! i) < n" using is_perm_nth [OF p i] by simp
  have row: "(gather (eye n) p :: 'a list list) ! i
      = map (\<lambda>j. if j = nat (p ! i) then 1 else 0) [0..<n]"
    using p i k by (auto simp: gather_nth eye_def)
  show ?thesis
    unfolding row row_ok_def
    using count_index_eq [OF k] by (auto simp: filter_one_map list_all_iff)
qed

lemma perm_col_ok:
  assumes p: "is_perm n p" and j: "j < n"
  shows "row_ok ((transpose_mat n n (gather (eye n) p) :: 'a::comm_ring_1 list list) ! j)"
proof -
  obtain k0 where k0: "k0 < n" "nat (p ! k0) = j" using is_perm_surj [OF p j] by blast
  have "(transpose_mat n n (gather (eye n) p) :: 'a list list) ! j
      = map (\<lambda>k. gather (eye n) p ! k ! j) [0..<n]"
    using j by (simp add: transpose_mat_def)
  also have "\<dots> = map (\<lambda>k. if k = k0 then 1 else 0) [0..<n]"
  proof (rule map_cong [OF refl])
    fix k assume "k \<in> set [0..<n]"
    then have kn: "k < n" by simp
    have "nat (p ! k) = j \<longleftrightarrow> k = k0"
      using is_perm_inj [OF p kn k0(1)] k0(2) by auto
    then show "(gather (eye n) p :: 'a list list) ! k ! j = (if k = k0 then 1 else 0)"
      using kn j p by (simp add: gather_eye_nth)
  qed
  finally have col: "(transpose_mat n n (gather (eye n) p) :: 'a list list) ! j
      = map (\<lambda>k. if k = k0 then 1 else 0) [0..<n]" .
  show ?thesis
    unfolding col row_ok_def
    using count_index_eq [OF k0(1)] by (auto simp: filter_one_map list_all_iff)
qed

lemma perm_matrix_gather:
  assumes p: "is_perm n p"
  shows "is_permutation_matrix n (transpose_mat n n (gather (eye n) p) :: 'a::comm_ring_1 list list)"
proof -
  let ?g = "gather (eye n) p :: 'a list list"
  have g: "mat_ok n n ?g" using p by (simp add: gather_ok)
  have "\<forall>j<n. row_ok (transpose_mat n n ?g ! j)"
    using perm_col_ok [OF p] by blast
  then have "list_all row_ok (transpose_mat n n ?g)"
    by (simp add: list_all_length)
  moreover have "\<forall>i<n. row_ok (?g ! i)"
    using perm_row_ok [OF p] by blast
  then have "list_all row_ok (transpose_mat n n (transpose_mat n n ?g))"
    using g by (simp add: transpose_mat_twice list_all_length mat_ok_def)
  ultimately show ?thesis by (simp add: is_permutation_matrix_def)
qed

section \<open>Running the operations\<close>

subsection \<open>Memory, views and copies\<close>

lemma frame_refl [simp]: "frame s s"
  by (simp add: frame_def)

lemma frame_trans: "frame s s1 \<Longrightarrow> frame s1 s2 \<Longrightarrow> frame s s2"
  by (auto simp: frame_def)

lemma frame_mat_of: "frame s s' \<Longrightarrow> blob t < next_blob s \<Longrightarrow> mat_of s' t = mat_of s t"
  by (simp add: frame_def mat_of_def)

lemma frame_idata: "frame s s' \<Longrightarrow> a < next_blob s \<Longrightarrow> idata s' a = idata s a"
  by (simp add: frame_def)

lemma frame_next: "frame s s' \<Longrightarrow> a < next_blob s \<Longrightarrow> a < next_blob s'"
  by (simp add: frame_def)

lemma bindE_Inr [simp]: "m s = (Inr x, s') \<Longrightarrow> bindE m f s = f x s'"
  by (simp add: bindE_def)

lemma bindE_Inl [simp]: "m s = (Inl e, s') \<Longrightarrow> bindE m f s = (Inl e, s')"
  by (simp add: bindE_def)

lemma bindE_returnE [simp]: "bindE (returnE x) f s = f x s"
  by (simp add: bindE_def returnE_def)

lemma bindE_throwE [simp]: "bindE (throwE e) f s = (Inl e, s)"
  by (simp add: bindE_def throwE_def)

lemma mat_of_contiguous:
  assumes "shape t = [r, c]" "strides t = [c, 1]" "fdata s (blob t) = flatten r c m" "mat_ok r c m"
  shows "mat_of s t = m"
  by (rule mat_eqI [of r c]) (use assms in \<open>simp_all add: mat_of_def flatten_nth\<close>)

lemma mat_of_T:
  assumes "shape t = [r, c]"
  shows "mat_of s (T t) = transpose_mat r c (mat_of s t)"
  by (rule mat_eqI [of c r])
     (use assms in \<open>simp_all add: mat_of_def T_def transpose_mat_def add.commute\<close>)

lemma mat_of_ok: "shape t = [r, c] \<Longrightarrow> mat_ok r c (mat_of s t)"
  by (simp add: mat_of_def)

lemma new_mat_run:
  assumes "mat_ok r c m"
  obtains h s' where "new_mat r c dt dev m s = (Inr h, s')" "frame s s'"
    "shape h = [r, c]" "strides h = [c, 1]" "blob h = next_blob s"
    "next_blob s' = Suc (next_blob s)" "mat_of s' h = m"
proof -
  let ?h = "\<lparr>shape = [r, c], strides = default_strides [r, c], blob = next_blob s,
           dtype = dt, device = dev\<rparr>"
  let ?s = "s\<lparr>fdata := (fdata s)(next_blob s := flatten r c m), next_blob := Suc (next_blob s)\<rparr>"
  have "mat_of ?s ?h = m"
    by (rule mat_of_contiguous [of _ r c]) (use assms in simp_all)
  then show ?thesis
    by (intro that [of ?h ?s]) (simp_all add: new_mat_def frame_def)
qed

lemma new_ivec_run:
  obtains h s' where "new_ivec dt dev xs s = (Inr h, s')" "frame s s'"
    "shape h = [length xs]" "blob h = next_blob s" "dtype h = dt" "device h = dev"
    "next_blob s' = Suc (next_blob s)" "idata s' (blob h) = xs"
  by (rule that [of "\<lparr>shape = [length xs], strides = default_strides [length xs],
        blob = next_blob s, dtype = dt, device = dev\<rparr>"
      "s\<lparr>idata := (idata s)(next_blob s := xs), next_blob := Suc (next_blob s)\<rparr>"])
     (simp_all add: new_ivec_def frame_def)

lemma Clone_run:
  assumes "shape t = [r, c]"
  obtains h s' where "Clone t s = (Inr h, s')" "frame s s'"
    "shape h = [r, c]" "strides h = [c, 1]" "blob h = next_blob s"
    "next_blob s' = Suc (next_blob s)" "mat_of s' h = mat_of s t"
    "fdata s' (blob h) = flatten r c (mat_of s t)"
proof -
  obtain h s' where *: "new_mat r c (dtype t) (device t) (mat_of s t) s = (Inr h, s')" "frame s s'"
    "shape h = [r, c]" "strides h = [c, 1]" "blob h = next_blob s"
    "next_blob s' = Suc (next_blob s)" "mat_of s' h = mat_of s t"
    using new_mat_run [OF mat_of_ok [OF assms, of s]] by blast
  have "fdata s' (blob h) = flatten r c (mat_of s t)"
    using *(1) by (auto simp: new_mat_def)
  with * show ?thesis using assms by (intro that [of h s']) (simp_all add: Clone_def)
qed

lemma Contiguous_run:
  assumes "shape t = [r, c]" "blob t < next_blob s"
  obtains h s' where "Contiguous t s = (Inr h, s')" "frame s s'"
    "shape h = [r, c]" "blob h < next_blob s'" "mat_of s' h = mat_of s t"
proof (cases "IsContiguous t")
  case True
  then show ?thesis using assms by (intro that [of t s]) (simp_all add: Contiguous_def returnE_def)
next
  case False
  obtain h s' where "Clone t s = (Inr h, s')" "frame s s'"
    "shape h = [r, c]" "blob h = next_blob s"
    "next_blob s' = Suc (next_blob s)" "mat_of s' h = mat_of s t"
    using Clone_run [OF assms(1)] by metis
  then show ?thesis using False by (intro that [of h s']) (simp_all add: Contiguous_def)
qed

subsection \<open>What each tensor operation returns\<close>

lemma triu_ok [simp]: "mat_ok r c (triu r c m)"
  by (simp add: triu_def)

lemma tril_unit_ok [simp]: "mat_ok r c (tril_unit r c m)"
  by (simp add: tril_unit_def)

lemma Thiul_run:
  assumes "shape t = [n, n]" "blob t < next_blob s"
  obtains u l s' where "Thiul t s = (Inr (u, l), s')" "frame s s'"
    "shape u = [n, n]" "blob u < next_blob s'" "mat_of s' u = triu n n (mat_of s t)"
    "shape l = [n, n]" "blob l < next_blob s'" "mat_of s' l = tril_unit n n (mat_of s t)"
proof -
  obtain u s1 where u: "new_mat n n (dtype t) (device t) (triu n n (mat_of s t)) s = (Inr u, s1)"
    "frame s s1" "shape u = [n, n]" "strides u = [n, 1]" "blob u = next_blob s"
    "next_blob s1 = Suc (next_blob s)" "mat_of s1 u = triu n n (mat_of s t)"
    by (rule new_mat_run [OF triu_ok])
  have t1: "mat_of s1 t = mat_of s t" using frame_mat_of [OF u(2) assms(2)] .
  obtain l s2 where l: "new_mat n n (dtype t) (device t) (tril_unit n n (mat_of s t)) s1 = (Inr l, s2)"
    "frame s1 s2" "shape l = [n, n]" "strides l = [n, 1]" "blob l = next_blob s1"
    "next_blob s2 = Suc (next_blob s1)" "mat_of s2 l = tril_unit n n (mat_of s t)"
    by (rule new_mat_run [OF tril_unit_ok])
  have "Thiul t s = (Inr (u, l), s2)"
    using u(1) l(1) assms(1) t1 by (simp add: Thiul_def returnE_def)
  moreover have "frame s s2" using u(2) l(2) by (rule frame_trans)
  moreover have "mat_of s2 u = triu n n (mat_of s t)"
    using frame_mat_of [OF l(2), of u] u by simp
  ultimately show ?thesis using u l by (intro that [of u l s2]) simp_all
qed

lemma Eye_run:
  obtains h s' where "Eye n dt dev s = (Inr h, s')" "frame s s'"
    "shape h = [n, n]" "blob h < next_blob s'" "mat_of s' h = eye n"
proof -
  obtain h s' where "new_mat n n dt dev (eye n) s = (Inr h, s')" "frame s s'"
    "shape h = [n, n]" "strides h = [n, 1]" "blob h = next_blob s"
    "next_blob s' = Suc (next_blob s)" "mat_of s' h = eye n"
    by (rule new_mat_run [OF eye_ok])
  then show ?thesis by (intro that [of h s']) (simp_all add: Eye_def)
qed

lemma IndexGet_run:
  assumes "shape t = [n, n]" "is_perm n (idata s (blob index))"
  obtains h s' where "IndexGet t index s = (Inr h, s')" "frame s s'"
    "shape h = [n, n]" "blob h < next_blob s'"
    "mat_of s' h = gather (mat_of s t) (idata s (blob index))"
proof -
  let ?ix = "idata s (blob index)"
  have ok: "mat_ok n n (gather (mat_of s t) ?ix)"
    using assms by (simp add: gather_ok mat_of_ok)
  obtain h s' where "new_mat n n (dtype t) (device t) (gather (mat_of s t) ?ix) s = (Inr h, s')"
    "frame s s'" "shape h = [n, n]" "strides h = [n, 1]" "blob h = next_blob s"
    "next_blob s' = Suc (next_blob s)" "mat_of s' h = gather (mat_of s t) ?ix"
    by (rule new_mat_run [OF ok])
  moreover have "list_all (\<lambda>k. 0 \<le> k \<and> k < int (shape t ! 0)) ?ix" "length ?ix = n"
    using assms by (simp_all add: is_perm_def)
  ultimately show ?thesis
    using assms(1) by (intro that [of h s']) (simp_all add: IndexGet_def Let_def)
qed

lemma Inverse_run:
  assumes "shape t = [n, n]" "inverse_impl be (mat_of s t) = Inr x" "mat_ok n n x"
  obtains h s' where "Inverse be t s = (Inr h, s')" "frame s s'"
    "shape h = [n, n]" "blob h < next_blob s'" "mat_of s' h = x"
proof -
  obtain h s' where h: "new_mat n n (dtype t) (device t) (transpose_mat n n x) s = (Inr h, s')"
    "frame s s'" "shape h = [n, n]" "strides h = [n, 1]" "blob h = next_blob s"
    "next_blob s' = Suc (next_blob s)" "mat_of s' h = transpose_mat n n x"
    by (rule new_mat_run [OF transpose_ok])
  have "mat_of s' (T h) = x"
    using h(7) assms(3) by (simp add: mat_of_T [OF h(3)] transpose_mat_twice)
  moreover have "shape (T h) = [n, n]" "blob (T h) = blob h"
    using h(3) by (simp_all add: T_def)
  moreover have "Inverse be t s = (Inr (T h), s')"
    using assms(1,2) h(1) by (simp add: Inverse_def returnE_def)
  ultimately show ?thesis using h by (intro that [of "T h" s']) simp_all
qed

lemma Matmul_run:
  assumes "shape a = [n, n]"
  obtains h s' where "Matmul a b s = (Inr h, s')" "frame s s'"
    "shape h = [n, n]" "blob h < next_blob s'"
    "mat_of s' h = mat_mul n (mat_of s a) (mat_of s b)"
proof -
  obtain h s' where "new_mat n n (dtype a) (device a) (mat_mul n (mat_of s a) (mat_of s b)) s
      = (Inr h, s')"
    "frame s s'" "shape h = [n, n]" "strides h = [n, 1]" "blob h = next_blob s"
    "next_blob s' = Suc (next_blob s)" "mat_of s' h = mat_mul n (mat_of s a) (mat_of s b)"
    by (rule new_mat_run [OF mat_mul_ok])
  then show ?thesis using assms by (intro that [of h s']) (simp_all add: Matmul_def)
qed

lemma To_run:
  assumes "blob t < next_blob s" "list_all (\<lambda>x. cast_int dt x = x) (idata s (blob t))"
  obtains h s' where "To t dev dt copy s = (Inr h, s')" "frame s s'"
    "blob h < next_blob s'" "idata s' (blob h) = idata s (blob t)"
proof (cases "\<not> copy \<and> device t = dev \<and> dtype t = dt")
  case True
  then show ?thesis using assms by (intro that [of t s]) (simp_all add: To_def returnE_def)
next
  case False
  have eq: "map (cast_int dt) (idata s (blob t)) = idata s (blob t)"
    using assms(2) by (simp add: list_all_iff map_idI)
  obtain h s' where "new_ivec dt dev (idata s (blob t)) s = (Inr h, s')" "frame s s'"
    "shape h = [length (idata s (blob t))]" "blob h = next_blob s" "dtype h = dt" "device h = dev"
    "next_blob s' = Suc (next_blob s)" "idata s' (blob h) = idata s (blob t)"
    by (rule new_ivec_run)
  then show ?thesis using False eq by (intro that [of h s']) (auto simp: To_def)
qed

lemma cast_int_id: "- (2 ^ 31) \<le> x \<Longrightarrow> x < 2 ^ 31 \<Longrightarrow> cast_int dt x = x"
proof -
  assume a: "- (2 ^ 31) \<le> x" "x < 2 ^ 31"
  have "signed_take_bit 31 x = x"
    using a by (simp add: signed_take_bit_int_eq_self_iff)
  moreover have "signed_take_bit 63 x = x"
    using a by (simp add: signed_take_bit_int_eq_self_iff)
  ultimately show ?thesis by (simp add: cast_int_def)
qed

subsection \<open>What the decoder returns\<close>

lemma GetColPermutation_run:
  assumes piv: "valid_pivots n (idata s (blob ipiv))" and n: "n < 2 ^ 31"
    and b: "blob ipiv < next_blob s"
  obtains h s' where "GetColPermutation ipiv k n s = (Inr h, s')" "frame s s'"
    "blob h < next_blob s'" "idata s' (blob h) = decoded (idata s (blob ipiv))"
proof -
  let ?piv = "idata s (blob ipiv)"
  obtain full s1 where full: "new_ivec Int32 (Device CPU 0) (map int [0..<n]) s = (Inr full, s1)"
    "frame s s1" "shape full = [length (map int [0..<n])]"
    "blob full = next_blob s" "dtype full = Int32" "device full = Device CPU 0"
    "next_blob s1 = Suc (next_blob s)" "idata s1 (blob full) = map int [0..<n]"
    by (rule new_ivec_run)
  have piv1: "idata s1 (blob ipiv) = ?piv" using frame_idata [OF full(2) b] .
  have b1: "blob ipiv < next_blob s1" using frame_next [OF full(2) b] .
  have c1: "list_all (\<lambda>x. cast_int Int32 x = x) (idata s1 (blob ipiv))"
    unfolding piv1 list_all_iff
  proof
    fix x assume "x \<in> set ?piv"
    then have "1 \<le> x" "x \<le> int n" using piv by (auto simp: valid_pivots_def list_all_iff)
    then show "cast_int Int32 x = x" using n by (intro cast_int_id) auto
  qed
  obtain cpu s2 where cpu: "To ipiv (Device CPU 0) Int32 False s1 = (Inr cpu, s2)"
    "frame s1 s2" "blob cpu < next_blob s2" "idata s2 (blob cpu) = idata s1 (blob ipiv)"
    by (rule To_run [OF b1 c1])
  have full2: "idata s2 (blob full) = map int [0..<n]" "blob full < next_blob s2"
    using frame_idata [OF cpu(2), of "blob full"] frame_next [OF cpu(2), of "blob full"] full
    by simp_all
  define s3 where "s3 = s2\<lparr>idata := (idata s2)(blob full := decoded ?piv)\<rparr>"
  have loop: "swap_loop (idata s2 (blob cpu)) n 0 (idata s2 (blob full)) = Inr (decoded ?piv)"
    using swap_loop_replay [OF piv] cpu(4) full2(1) piv1 by simp
  have f02: "frame s s2" using full(2) cpu(2) by (rule frame_trans)
  have f03: "frame s s3"
    using f02 full(4) by (auto simp: frame_def s3_def)
  have s3: "idata s3 (blob full) = decoded ?piv" "blob full < next_blob s3"
    using full2(2) by (simp_all add: s3_def)
  have c3: "list_all (\<lambda>x. cast_int Int64 x = x) (idata s3 (blob full))"
    unfolding list_all_iff s3(1)
  proof
    fix x assume "x \<in> set (decoded ?piv)"
    then have "x \<in> int ` {0..<n}" using decoded_perm(3) [OF piv] by simp
    then have "0 \<le> x" "x < int n" by auto
    then show "cast_int Int64 x = x" using n by (intro cast_int_id) auto
  qed
  obtain h s4 where h: "To full (device ipiv) Int64 False s3 = (Inr h, s4)"
    "frame s3 s4" "blob h < next_blob s4" "idata s4 (blob h) = idata s3 (blob full)"
    by (rule To_run [OF s3(2) c3])
  have "bindE (\<lambda>s. case swap_loop (idata s (blob cpu)) n 0 (idata s (blob full)) of
                  Inl e \<Rightarrow> (Inl e, s)
                | Inr full' \<Rightarrow> (Inr (), s\<lparr>idata := (idata s)(blob full := full')\<rparr>))
          (\<lambda>_. To full (device ipiv) Int64 False) s2 = (Inr h, s4)"
    using loop h(1) by (simp add: bindE_def s3_def)
  then have "GetColPermutation ipiv k n s = (Inr h, s4)"
    using full(1) cpu(1) by (simp add: GetColPermutation_def Arange_def)
  moreover have "frame s s4" using f03 h(2) by (rule frame_trans)
  ultimately show ?thesis using h s3 by (intro that [of h s4]) simp_all
qed

subsection \<open>What the reconstructor returns\<close>

lemma shape_at_run: "k < length (shape t) \<Longrightarrow> shape_at t k s = (Inr (shape t ! k), s)"
  by (simp add: shape_at_def returnE_def)

lemma OutputToPLU_run:
  assumes out: "shape output = [n, n]" "blob output < next_blob s"
    and ip: "shape ipiv \<noteq> []" "blob ipiv < next_blob s"
    and piv: "valid_pivots n (idata s (blob ipiv))" and n: "n < 2 ^ 31"
    and inv: "inverse_impl be (gather (eye n) (decoded (idata s (blob ipiv)))) = Inr x"
      "mat_ok n n x"
  obtains P L U s' where "OutputToPLU be output ipiv permute_l s = (Inr (P, L, U), s')"
    "frame s s'" "mat_of s' P = x"
    "mat_of s' L = (if permute_l then mat_mul n x (tril_unit n n (mat_of s output))
                    else tril_unit n n (mat_of s output))"
    "mat_of s' U = triu n n (mat_of s output)"
proof -
  let ?piv = "idata s (blob ipiv)"
  obtain u l s1 where t: "Thiul output s = (Inr (u, l), s1)" "frame s s1"
    "shape u = [n, n]" "blob u < next_blob s1" "mat_of s1 u = triu n n (mat_of s output)"
    "shape l = [n, n]" "blob l < next_blob s1" "mat_of s1 l = tril_unit n n (mat_of s output)"
    by (rule Thiul_run [OF out])
  have piv1: "idata s1 (blob ipiv) = ?piv" "blob ipiv < next_blob s1"
    using frame_idata [OF t(2) ip(2)] frame_next [OF t(2) ip(2)] by simp_all
  have vp1: "valid_pivots n (idata s1 (blob ipiv))" using piv piv1 by simp
  obtain cp s2 where c: "GetColPermutation ipiv (shape ipiv ! 0) n s1 = (Inr cp, s2)"
    "frame s1 s2" "blob cp < next_blob s2" "idata s2 (blob cp) = decoded (idata s1 (blob ipiv))"
    by (rule GetColPermutation_run [OF vp1 n piv1(2)])
  obtain e s3 where e: "Eye n (dtype output) (device output) s2 = (Inr e, s3)" "frame s2 s3"
    "shape e = [n, n]" "blob e < next_blob s3" "mat_of s3 e = eye n"
    by (rule Eye_run)
  have cp3: "idata s3 (blob cp) = decoded ?piv"
    using frame_idata [OF e(2) c(3)] c(4) piv1 by simp
  have perm3: "is_perm n (idata s3 (blob cp))"
    using is_perm_decoded [OF piv] cp3 by simp
  obtain g s4 where g: "IndexGet e cp s3 = (Inr g, s4)" "frame s3 s4"
    "shape g = [n, n]" "blob g < next_blob s4"
    "mat_of s4 g = gather (mat_of s3 e) (idata s3 (blob cp))"
    by (rule IndexGet_run [OF e(3) perm3])
  have inv4: "inverse_impl be (mat_of s4 g) = Inr x"
    using inv(1) g(5) e(5) cp3 by simp
  obtain iv s5 where iv: "Inverse be g s4 = (Inr iv, s5)" "frame s4 s5"
    "shape iv = [n, n]" "blob iv < next_blob s5" "mat_of s5 iv = x"
    by (rule Inverse_run [OF g(3) inv4 inv(2)])
  obtain p s6 where p: "Contiguous iv s5 = (Inr p, s6)" "frame s5 s6"
    "shape p = [n, n]" "blob p < next_blob s6" "mat_of s6 p = mat_of s5 iv"
    by (rule Contiguous_run [OF iv(3,4)])
  have f16: "frame s1 s6"
    using c(2) e(2) g(2) iv(2) p(2) by (blast intro: frame_trans)
  have u6: "mat_of s6 u = triu n n (mat_of s output)" "blob u < next_blob s6"
    using frame_mat_of [OF f16 t(4)] frame_next [OF f16 t(4)] t(5) by simp_all
  have l6: "mat_of s6 l = tril_unit n n (mat_of s output)" "blob l < next_blob s6"
    using frame_mat_of [OF f16 t(7)] frame_next [OF f16 t(7)] t(8) by simp_all
  have f06: "frame s s6" using t(2) f16 by (rule frame_trans)
  have prefix: "OutputToPLU be output ipiv permute_l s
      = bindE (if permute_l then Matmul p l else returnE l)
          (\<lambda>lower. returnE (p, lower, u)) s6"
    using out(1) ip(1) t(1) c(1) e(1) g(1) iv(1) p(1)
    by (simp add: OutputToPLU_def shape_at_run Let_def)
  show ?thesis
  proof (cases permute_l)
    case False
    have "OutputToPLU be output ipiv permute_l s = (Inr (p, l, u), s6)"
      using prefix False by (simp add: returnE_def)
    then show ?thesis
      using f06 p(5) iv(5) l6 u6 False by (intro that [of p l u s6]) simp_all
  next
    case True
    obtain l' s7 where m: "Matmul p l s6 = (Inr l', s7)" "frame s6 s7"
      "shape l' = [n, n]" "blob l' < next_blob s7"
      "mat_of s7 l' = mat_mul n (mat_of s6 p) (mat_of s6 l)"
      by (rule Matmul_run [OF p(3)])
    have "OutputToPLU be output ipiv permute_l s = (Inr (p, l', u), s7)"
      using prefix True m(1) by (simp add: returnE_def)
    moreover have "frame s s7" using f06 m(2) by (rule frame_trans)
    moreover have "mat_of s7 p = x" using frame_mat_of [OF m(2) p(4)] p(5) iv(5) by simp
    moreover have "mat_of s7 u = triu n n (mat_of s output)"
      using frame_mat_of [OF m(2) u6(2)] u6(1) by simp
    moreover have "mat_of s7 l' = mat_mul n x (tril_unit n n (mat_of s output))"
      using m(5) p(5) iv(5) l6(1) by simp
    ultimately show ?thesis using True by (intro that [of p l' u s7]) simp_all
  qed
qed

subsection \<open>What every operation leaves untouched\<close>

lemma keepsI:
  "(\<And>s. b \<le> next_blob s \<Longrightarrow> next_blob s \<le> next_blob (snd (m s))
      \<and> (\<forall>a<b. fdata (snd (m s)) a = fdata s a \<and> idata (snd (m s)) a = idata s a))
   \<Longrightarrow> keeps b m"
  by (simp add: keeps_def)

lemma keeps_frame: "keeps (next_blob s) m \<Longrightarrow> frame s (snd (m s))"
  by (simp add: keeps_def frame_def)

lemma keeps_returnE [simp]: "keeps b (returnE x)"
  by (simp add: keeps_def returnE_def)

lemma keeps_throwE [simp]: "keeps b (throwE e)"
  by (simp add: keeps_def throwE_def)

lemma keeps_bindE:
  assumes "keeps b m" "\<And>x s s'. b \<le> next_blob s \<Longrightarrow> m s = (Inr x, s') \<Longrightarrow> keeps b (f x)"
  shows "keeps b (bindE m f)"
proof (rule keepsI)
  fix s :: "'a state" assume b: "b \<le> next_blob s"
  obtain r s1 where ms: "m s = (r, s1)" by (cases "m s")
  have k1: "next_blob s \<le> next_blob s1"
    "\<forall>a<b. fdata s1 a = fdata s a \<and> idata s1 a = idata s a"
    using assms(1) b ms by (auto simp: keeps_def)
  show "next_blob s \<le> next_blob (snd (bindE m f s))
      \<and> (\<forall>a<b. fdata (snd (bindE m f s)) a = fdata s a \<and> idata (snd (bindE m f s)) a = idata s a)"
  proof (cases r)
    case (Inl e)
    then show ?thesis using ms k1 by (simp add: bindE_def)
  next
    case (Inr x)
    have "keeps b (f x)" using assms(2) [OF b] ms Inr by simp
    moreover have "b \<le> next_blob s1" using b k1(1) by simp
    ultimately have "next_blob s1 \<le> next_blob (snd (f x s1))"
      "\<forall>a<b. fdata (snd (f x s1)) a = fdata s1 a \<and> idata (snd (f x s1)) a = idata s1 a"
      by (auto simp: keeps_def)
    then show ?thesis using ms Inr k1 by (simp add: bindE_def)
  qed
qed

lemma keeps_bindE_all: "keeps b m \<Longrightarrow> (\<And>x. keeps b (f x)) \<Longrightarrow> keeps b (bindE m f)"
  by (rule keeps_bindE)

lemma keeps_if: "keeps b m \<Longrightarrow> keeps b m' \<Longrightarrow> keeps b (if c then m else m')"
  by simp

lemma keeps_new_mat [simp]: "keeps b (new_mat r c dt dev m)"
  by (simp add: keeps_def new_mat_def)

lemma keeps_new_ivec [simp]: "keeps b (new_ivec dt dev xs)"
  by (simp add: keeps_def new_ivec_def)

lemma keeps_Tensor_default [simp]: "keeps b Tensor_default"
  by (simp add: keeps_def Tensor_default_def)

lemma keeps_LogInfo [simp]: "keeps b (LogInfo msg)"
  by (simp add: keeps_def LogInfo_def)

lemma keeps_shape_at [simp]: "keeps b (shape_at t k)"
  by (simp add: shape_at_def)

lemma keeps_Clone [simp]: "keeps b (Clone t)"
  by (simp add: keeps_def Clone_def new_mat_def)

lemma keeps_Contiguous [simp]: "keeps b (Contiguous t)"
  by (simp add: Contiguous_def)

lemma keeps_Empty [simp]: "keeps b (Empty n dt dev)"
  by (simp add: Empty_def)

lemma keeps_Arange [simp]: "keeps b (Arange n dt dev)"
  by (simp add: Arange_def)

lemma keeps_To [simp]: "keeps b (To t dev dt copy)"
  by (simp add: keeps_def To_def new_ivec_def returnE_def)

lemma keeps_Eye [simp]: "keeps b (Eye n dt dev)"
  by (simp add: Eye_def)

lemma keeps_IndexGet [simp]: "keeps b (IndexGet t ix)"
  by (simp add: keeps_def IndexGet_def new_mat_def throwE_def Let_def)

lemma keeps_Matmul [simp]: "keeps b (Matmul x y)"
  by (simp add: keeps_def Matmul_def new_mat_def)

lemma keeps_Thiul [simp]: "keeps b (Thiul t)"
  unfolding Thiul_def
  by (intro keeps_bindE_all keeps_returnE) (simp_all add: keeps_def new_mat_def)

lemma keeps_Inverse [simp]: "keeps b (Inverse be t)"
  by (auto simp: keeps_def Inverse_def new_mat_def throwE_def bindE_def returnE_def
           split: sum.splits)

lemma keeps_LUCPU: "b \<le> A_data \<Longrightarrow> b \<le> ipiv_data \<Longrightarrow> keeps b (LUCPU be A_data ipiv_data n dt dev)"
  by (auto simp: keeps_def LUCPU_def Let_def split: sum.splits)

lemma keeps_LUCUDA: "b \<le> A_data \<Longrightarrow> b \<le> ipiv_data \<Longrightarrow> keeps b (LUCUDA be A_data ipiv_data n dt dev)"
  by (auto simp: keeps_def LUCUDA_def Let_def split: sum.splits)

lemma new_mat_blob: "new_mat r c dt dev m s = (Inr x, s') \<Longrightarrow> blob x = next_blob s"
  by (auto simp: new_mat_def)

lemma new_ivec_blob: "new_ivec dt dev xs s = (Inr x, s') \<Longrightarrow> blob x = next_blob s"
  by (auto simp: new_ivec_def)

lemma Clone_blob: "Clone t s = (Inr x, s') \<Longrightarrow> blob x = next_blob s"
  by (auto simp: Clone_def new_mat_def)

lemma keeps_kernel_cpu:
  assumes "b \<le> A_data"
  shows "keeps b (bindE (Empty n idt dev) (\<lambda>ipiv.
           bindE (LUCPU be A_data (blob ipiv) n dt dev') (\<lambda>_. returnE ipiv)))"
proof (rule keeps_bindE [OF keeps_Empty])
  fix x and s s' :: "'a state"
  assume "b \<le> next_blob s" "Empty n idt dev s = (Inr x, s')"
  then have "b \<le> blob x" by (auto simp: Empty_def dest!: new_ivec_blob)
  then show "keeps b (bindE (LUCPU be A_data (blob x) n dt dev') (\<lambda>_. returnE x))"
    using assms by (intro keeps_bindE_all keeps_LUCPU keeps_returnE)
qed

lemma keeps_kernel_cuda:
  assumes "b \<le> A_data"
  shows "keeps b (bindE (Empty n idt dev) (\<lambda>ipiv.
           bindE (LUCUDA be A_data (blob ipiv) n dt dev') (\<lambda>_. returnE ipiv)))"
proof (rule keeps_bindE [OF keeps_Empty])
  fix x and s s' :: "'a state"
  assume "b \<le> next_blob s" "Empty n idt dev s = (Inr x, s')"
  then have "b \<le> blob x" by (auto simp: Empty_def dest!: new_ivec_blob)
  then show "keeps b (bindE (LUCUDA be A_data (blob x) n dt dev') (\<lambda>_. returnE x))"
    using assms by (intro keeps_bindE_all keeps_LUCUDA keeps_returnE)
qed

lemma keeps_LU_with_ipiv: "keeps b (LU_with_ipiv cfg be A ipiv output)"
  unfolding LU_with_ipiv_def Let_def
proof (intro keeps_if keeps_throwE keeps_bindE [OF keeps_Clone])
  fix x and s s' :: "'a state"
  assume "b \<le> next_blob s" "Clone (T A) s = (Inr x, s')"
  then have bx: "b \<le> blob x" by (auto dest!: Clone_blob)
  show "keeps b
        (bindE
          (if GetType (device A) = CUDA
           then if BUILD_CUDA_MODULE cfg
                then bindE (Empty (shape A ! 0) Int32 (device A))
                      (\<lambda>ipiv. bindE (LUCUDA be (blob x) (blob ipiv) (shape A ! 0) (dtype A) (device A))
                          (\<lambda>_. returnE ipiv))
                else bindE (LogInfo ''Unimplemented device.'') (\<lambda>_. returnE ipiv)
           else bindE
                 (if sizeof_OPEN3D_CPU_LINALG_INT cfg = 4 then returnE Int32
                  else if sizeof_OPEN3D_CPU_LINALG_INT cfg = 8 then returnE Int64
                       else throwE UnsupportedIntegerWidth)
                 (\<lambda>ipiv_dtype.
                     bindE (Empty (shape A ! 0) ipiv_dtype (device A))
                      (\<lambda>ipiv. bindE (LUCPU be (blob x) (blob ipiv) (shape A ! 0) (dtype A) (device A))
                          (\<lambda>_. returnE ipiv))))
          (\<lambda>ipiv. bindE (Contiguous (T x)) (\<lambda>output. returnE (ipiv, output))))"
    by (intro keeps_bindE_all keeps_if keeps_kernel_cpu keeps_kernel_cuda keeps_LogInfo
          keeps_returnE keeps_throwE keeps_Contiguous bx)
qed

lemma keeps_swap_write:
  assumes "b \<le> blob full"
  shows "keeps b (\<lambda>s. case swap_loop (idata s (blob cpu)) n 0 (idata s (blob full)) of
                  Inl e \<Rightarrow> (Inl e, s)
                | Inr full' \<Rightarrow> (Inr (), s\<lparr>idata := (idata s)(blob full := full')\<rparr>))"
  using assms by (auto simp: keeps_def split: sum.splits)

lemma keeps_GetColPermutation: "keeps b (GetColPermutation ipiv k n)"
  unfolding GetColPermutation_def
proof (rule keeps_bindE [OF keeps_Arange])
  fix x and s s' :: "'a state"
  assume "b \<le> next_blob s" "Arange n Int32 (Device CPU 0) s = (Inr x, s')"
  then have bx: "b \<le> blob x" by (auto simp: Arange_def dest!: new_ivec_blob)
  show "keeps b (bindE (To ipiv (Device CPU 0) Int32 False)
          (\<lambda>ipiv_cpu. bindE (\<lambda>s. case swap_loop (idata s (blob ipiv_cpu)) n 0 (idata s (blob x)) of
                  Inl e \<Rightarrow> (Inl e, s)
                | Inr full \<Rightarrow> (Inr (), s\<lparr>idata := (idata s)(blob x := full)\<rparr>))
             (\<lambda>_. To x (device ipiv) Int64 False)))"
    by (intro keeps_bindE_all keeps_To keeps_swap_write bx)
qed

lemma keeps_OutputToPLU: "keeps b (OutputToPLU be output ipiv permute_l)"
  unfolding OutputToPLU_def Let_def
  by (intro keeps_bindE_all keeps_if keeps_shape_at keeps_Thiul keeps_GetColPermutation
        keeps_Eye keeps_IndexGet keeps_Inverse keeps_Contiguous keeps_Matmul keeps_returnE)
     (simp_all add: split_def keeps_bindE_all keeps_GetColPermutation)

lemma keeps_LU: "keeps b (LU cfg be A permute_l)"
  unfolding LU_def
  by (intro keeps_bindE_all keeps_Tensor_default keeps_LU_with_ipiv)
     (simp_all add: split_def keeps_OutputToPLU)

subsection \<open>What the driver returns\<close>

lemma Clone_quiet:
  "Clone t s = (r, s') \<Longrightarrow> logged s' = logged s \<and> kernels s' = kernels s \<and> idata s' = idata s"
  by (auto simp: Clone_def new_mat_def)

lemma Contiguous_quiet:
  "Contiguous t s = (r, s') \<Longrightarrow> logged s' = logged s \<and> kernels s' = kernels s \<and> idata s' = idata s"
  by (auto simp: Contiguous_def returnE_def dest: Clone_quiet split: if_splits)

lemma new_ivec_quiet:
  "new_ivec dt dev xs s = (r, s') \<Longrightarrow> logged s' = logged s \<and> kernels s' = kernels s"
  by (auto simp: new_ivec_def)

lemma kernel_tail:
  assumes o1: "shape o1 = [n, n]" "strides o1 = [n, 1]" "blob o1 < next_blob s3"
    and buf: "fdata s3 (blob o1) = buf"
  obtains o2 s4 where "Contiguous (T o1) s3 = (Inr o2, s4)" "frame s3 s4"
    "shape o2 = [n, n]" "blob o2 < next_blob s4" "mat_of s4 o2 = col_major n buf"
proof -
  have t: "shape (T o1) = [n, n]" "blob (T o1) < next_blob s3"
    using o1 by (simp_all add: T_def)
  have "mat_of s3 (T o1) = mk_mat n n (\<lambda>i j. buf ! (i * 1 + j * n))"
    using o1 buf by (simp add: mat_of_def T_def)
  also have "\<dots> = col_major n buf"
    unfolding col_major_def by (rule mk_mat_cong) (simp add: add.commute)
  finally have "mat_of s3 (T o1) = col_major n buf" .
  moreover obtain o2 s4 where "Contiguous (T o1) s3 = (Inr o2, s4)" "frame s3 s4"
    "shape o2 = [n, n]" "blob o2 < next_blob s4" "mat_of s4 o2 = mat_of s3 (T o1)"
    by (rule Contiguous_run [OF t])
  ultimately show ?thesis by (intro that [of o2 s4]) simp_all
qed

lemma LU_with_ipiv_valid:
  assumes "valid_input n A"
  shows "LU_with_ipiv cfg be A ipiv output =
      bindE (Clone (T A)) (\<lambda>output.
      bindE
        (if GetType (device A) = CUDA then
           (if BUILD_CUDA_MODULE cfg then
              bindE (Empty n Int32 (device A)) (\<lambda>ipiv.
              bindE (LUCUDA be (blob output) (blob ipiv) n (dtype A) (device A)) (\<lambda>_.
              returnE ipiv))
            else
              bindE (LogInfo ''Unimplemented device.'') (\<lambda>_.
              returnE ipiv))
         else
           bindE
             (if sizeof_OPEN3D_CPU_LINALG_INT cfg = 4 then returnE Int32
              else if sizeof_OPEN3D_CPU_LINALG_INT cfg = 8 then returnE Int64
              else throwE UnsupportedIntegerWidth) (\<lambda>ipiv_dtype.
           bindE (Empty n ipiv_dtype (device A)) (\<lambda>ipiv.
           bindE (LUCPU be (blob output) (blob ipiv) n (dtype A) (device A)) (\<lambda>_.
           returnE ipiv)))) (\<lambda>ipiv.
      bindE (Contiguous (T output)) (\<lambda>output.
      returnE (ipiv, output))))"
proof -
  have sh: "shape A = [n, n]" "n \<noteq> 0" using assms by (simp_all add: valid_input_def)
  consider "dtype A = Float32" | "dtype A = Float64" using assms by (auto simp: valid_input_def)
  then show ?thesis
    unfolding LU_with_ipiv_def Let_def
    by cases (simp_all add: sh split del: if_split cong: if_cong)
qed

lemma LU_with_ipiv_run:
  assumes v: "valid_input n A" and d: "dispatch_ok cfg (device A)"
    and k: "getrf_of be (device A) n (dtype A)
              (flatten n n (transpose_mat n n (mat_of s A))) = Inr (buf, piv)"
  obtains ipiv' output' s' where
    "LU_with_ipiv cfg be A ipiv output s = (Inr (ipiv', output'), s')"
    "shape output' = [n, n]" "blob output' < next_blob s'" "mat_of s' output' = col_major n buf"
    "shape ipiv' = [n]" "blob ipiv' < next_blob s'" "idata s' (blob ipiv') = piv"
    "dtype ipiv' = (if GetType (device A) = CUDA then Int32
       else if sizeof_OPEN3D_CPU_LINALG_INT cfg = 4 then Int32 else Int64)"
    "kernels s' = kernels s @ [if GetType (device A) = CUDA then LUCUDA_kernel else LUCPU_kernel]"
    "logged s' = logged s"
proof -
  have sh: "shape A = [n, n]" and n0: "n \<noteq> 0" and dt: "\<not> (dtype A \<noteq> Float32 \<and> dtype A \<noteq> Float64)"
    using v by (auto simp: valid_input_def)
  have tA: "shape (T A) = [n, n]" using sh by (simp add: T_def)
  obtain o1 s1 where o1: "Clone (T A) s = (Inr o1, s1)" "frame s s1"
    "shape o1 = [n, n]" "strides o1 = [n, 1]" "blob o1 = next_blob s"
    "next_blob s1 = Suc (next_blob s)" "mat_of s1 o1 = mat_of s (T A)"
    "fdata s1 (blob o1) = flatten n n (mat_of s (T A))"
    by (rule Clone_run [OF tA])
  have colbuf: "fdata s1 (blob o1) = flatten n n (transpose_mat n n (mat_of s A))"
    using o1(8) by (simp add: mat_of_T [OF sh])
  define idt where "idt = (if GetType (device A) = CUDA then Int32
     else if sizeof_OPEN3D_CPU_LINALG_INT cfg = 4 then Int32 else Int64)"
  obtain ip s2 where ip: "new_ivec idt (device A) (replicate n 0) s1 = (Inr ip, s2)" "frame s1 s2"
    "shape ip = [length (replicate n (0::int))]" "blob ip = next_blob s1" "dtype ip = idt"
    "device ip = device A"
    "next_blob s2 = Suc (next_blob s1)" "idata s2 (blob ip) = replicate n 0"
    by (rule new_ivec_run)
  have buf2: "fdata s2 (blob o1) = flatten n n (transpose_mat n n (mat_of s A))"
    using ip(2) o1(5,6) colbuf by (simp add: frame_def)
  define K where "K = (if GetType (device A) = CUDA then LUCUDA_kernel else LUCPU_kernel)"
  define s3 where "s3 = s2\<lparr>kernels := kernels s2 @ [K], fdata := (fdata s2)(blob o1 := buf),
     idata := (idata s2)(blob ip := piv)\<rparr>"
  have s3: "blob o1 < next_blob s3" "fdata s3 (blob o1) = buf" "blob ip < next_blob s3"
    "idata s3 (blob ip) = piv"
    using o1(5,6) ip(4,7) by (simp_all add: s3_def)
  obtain o2 s4 where o2: "Contiguous (T o1) s3 = (Inr o2, s4)" "frame s3 s4"
    "shape o2 = [n, n]" "blob o2 < next_blob s4" "mat_of s4 o2 = col_major n buf"
    by (rule kernel_tail [OF o1(3,4) s3(1,2)])
  have piv4: "idata s4 (blob ip) = piv" "blob ip < next_blob s4"
    using frame_idata [OF o2(2) s3(3)] frame_next [OF o2(2) s3(3)] s3(4) by simp_all
  have run: "LU_with_ipiv cfg be A ipiv output s = (Inr (ip, o2), s4)"
  proof (cases "GetType (device A) = CUDA")
    case True
    then have "getrf_cuda be n (dtype A) (fdata s2 (blob o1)) = Inr (buf, piv)"
      using k buf2 by (simp add: getrf_of_def)
    then have "LUCUDA be (blob o1) (blob ip) n (dtype A) (device A) s2 = (Inr (), s3)"
      using True by (simp add: LUCUDA_def s3_def K_def)
    moreover have "BUILD_CUDA_MODULE cfg" "idt = Int32"
      using True d by (simp_all add: dispatch_ok_def idt_def)
    ultimately show ?thesis
      using True o1(1) ip(1) o2(1)
      by (simp add: LU_with_ipiv_valid [OF v] Empty_def returnE_def)
  next
    case False
    then have "getrf_cpu be n (dtype A) (fdata s2 (blob o1)) = Inr (buf, piv)"
      using k buf2 by (simp add: getrf_of_def)
    then have "LUCPU be (blob o1) (blob ip) n (dtype A) (device A) s2 = (Inr (), s3)"
      using False by (simp add: LUCPU_def s3_def K_def)
    moreover have "(if sizeof_OPEN3D_CPU_LINALG_INT cfg = 4 then returnE Int32
              else if sizeof_OPEN3D_CPU_LINALG_INT cfg = 8 then returnE Int64
              else throwE UnsupportedIntegerWidth) = (returnE idt :: (Dtype, 'a) op)"
      using False d by (auto simp: dispatch_ok_def idt_def)
    ultimately show ?thesis
      using False o1(1) ip(1) o2(1)
      by (simp add: LU_with_ipiv_valid [OF v] Empty_def returnE_def)
  qed
  have "kernels s4 = kernels s3" "logged s4 = logged s3"
    using Contiguous_quiet [OF o2(1)] by simp_all
  moreover have "kernels s2 = kernels s1" "logged s2 = logged s1"
    using new_ivec_quiet [OF ip(1)] by simp_all
  moreover have "kernels s1 = kernels s" "logged s1 = logged s"
    using Clone_quiet [OF o1(1)] by simp_all
  ultimately have tr: "kernels s4 = kernels s @ [K]" "logged s4 = logged s"
    by (simp_all add: s3_def)
  show ?thesis
    using run o2 piv4 ip(3,5) tr by (intro that [of ip o2 s4]) (simp_all add: idt_def K_def)
qed

lemma LU_with_ipiv_kernel_raises:
  assumes v: "valid_input n A" and d: "dispatch_ok cfg (device A)"
    and k: "getrf_of be (device A) n (dtype A)
              (flatten n n (transpose_mat n n (mat_of s A))) = Inl e"
  obtains s' where "LU_with_ipiv cfg be A ipiv output s = (Inl e, s')"
    "kernels s' = kernels s @ [if GetType (device A) = CUDA then LUCUDA_kernel else LUCPU_kernel]"
proof -
  have sh: "shape A = [n, n]" using v by (auto simp: valid_input_def)
  have tA: "shape (T A) = [n, n]" using sh by (simp add: T_def)
  obtain o1 s1 where o1: "Clone (T A) s = (Inr o1, s1)" "frame s s1"
    "shape o1 = [n, n]" "strides o1 = [n, 1]" "blob o1 = next_blob s"
    "next_blob s1 = Suc (next_blob s)" "mat_of s1 o1 = mat_of s (T A)"
    "fdata s1 (blob o1) = flatten n n (mat_of s (T A))"
    by (rule Clone_run [OF tA])
  have colbuf: "fdata s1 (blob o1) = flatten n n (transpose_mat n n (mat_of s A))"
    using o1(8) by (simp add: mat_of_T [OF sh])
  define idt where "idt = (if GetType (device A) = CUDA then Int32
     else if sizeof_OPEN3D_CPU_LINALG_INT cfg = 4 then Int32 else Int64)"
  obtain ip s2 where ip: "new_ivec idt (device A) (replicate n 0) s1 = (Inr ip, s2)" "frame s1 s2"
    "shape ip = [length (replicate n (0::int))]" "blob ip = next_blob s1" "dtype ip = idt"
    "device ip = device A"
    "next_blob s2 = Suc (next_blob s1)" "idata s2 (blob ip) = replicate n 0"
    by (rule new_ivec_run)
  have buf2: "fdata s2 (blob o1) = flatten n n (transpose_mat n n (mat_of s A))"
    using ip(2) o1(5,6) colbuf by (simp add: frame_def)
  define K where "K = (if GetType (device A) = CUDA then LUCUDA_kernel else LUCPU_kernel)"
  define s3 where "s3 = s2\<lparr>kernels := kernels s2 @ [K]\<rparr>"
  have run: "LU_with_ipiv cfg be A ipiv output s = (Inl e, s3)"
  proof (cases "GetType (device A) = CUDA")
    case True
    then have "getrf_cuda be n (dtype A) (fdata s2 (blob o1)) = Inl e"
      using k buf2 by (simp add: getrf_of_def)
    then have "LUCUDA be (blob o1) (blob ip) n (dtype A) (device A) s2 = (Inl e, s3)"
      using True by (simp add: LUCUDA_def s3_def K_def)
    moreover have "BUILD_CUDA_MODULE cfg" "idt = Int32"
      using True d by (simp_all add: dispatch_ok_def idt_def)
    ultimately show ?thesis
      using True o1(1) ip(1)
      by (simp add: LU_with_ipiv_valid [OF v] Empty_def returnE_def)
  next
    case False
    then have "getrf_cpu be n (dtype A) (fdata s2 (blob o1)) = Inl e"
      using k buf2 by (simp add: getrf_of_def)
    then have "LUCPU be (blob o1) (blob ip) n (dtype A) (device A) s2 = (Inl e, s3)"
      using False by (simp add: LUCPU_def s3_def K_def)
    moreover have "(if sizeof_OPEN3D_CPU_LINALG_INT cfg = 4 then returnE Int32
              else if sizeof_OPEN3D_CPU_LINALG_INT cfg = 8 then returnE Int64
              else throwE UnsupportedIntegerWidth) = (returnE idt :: (Dtype, 'a) op)"
      using False d by (auto simp: dispatch_ok_def idt_def)
    ultimately show ?thesis
      using False o1(1) ip(1)
      by (simp add: LU_with_ipiv_valid [OF v] Empty_def returnE_def)
  qed
  have "kernels s2 = kernels s1" using new_ivec_quiet [OF ip(1)] by simp
  moreover have "kernels s1 = kernels s" using Clone_quiet [OF o1(1)] by simp
  ultimately have "kernels s3 = kernels s @ [K]" by (simp add: s3_def)
  then show ?thesis using run by (intro that [of s3]) (simp_all add: K_def)
qed

lemma LU_with_ipiv_width:
  assumes v: "valid_input n A" and d: "GetType (device A) \<noteq> CUDA"
    "sizeof_OPEN3D_CPU_LINALG_INT cfg \<noteq> 4" "sizeof_OPEN3D_CPU_LINALG_INT cfg \<noteq> 8"
  obtains s' where "LU_with_ipiv cfg be A ipiv output s = (Inl UnsupportedIntegerWidth, s')"
    "kernels s' = kernels s"
proof -
  have sh: "shape A = [n, n]" using v by (auto simp: valid_input_def)
  have tA: "shape (T A) = [n, n]" using sh by (simp add: T_def)
  obtain o1 s1 where o1: "Clone (T A) s = (Inr o1, s1)" "frame s s1"
    "shape o1 = [n, n]" "strides o1 = [n, 1]" "blob o1 = next_blob s"
    "next_blob s1 = Suc (next_blob s)" "mat_of s1 o1 = mat_of s (T A)"
    "fdata s1 (blob o1) = flatten n n (mat_of s (T A))"
    by (rule Clone_run [OF tA])
  have "LU_with_ipiv cfg be A ipiv output s = (Inl UnsupportedIntegerWidth, s1)"
    using d o1(1) by (simp add: LU_with_ipiv_valid [OF v])
  moreover have "kernels s1 = kernels s" using Clone_quiet [OF o1(1)] by simp
  ultimately show ?thesis by (rule that)
qed

lemma LU_with_ipiv_degrade:
  assumes v: "valid_input n A" and d: "GetType (device A) = CUDA" "\<not> BUILD_CUDA_MODULE cfg"
  obtains output' s' where "LU_with_ipiv cfg be A ipiv output s = (Inr (ipiv, output'), s')"
    "shape output' = [n, n]" "mat_of s' output' = mat_of s A"
    "logged s' = logged s @ [''Unimplemented device.'']" "kernels s' = kernels s"
    "idata s' = idata s"
proof -
  have sh: "shape A = [n, n]" using v by (auto simp: valid_input_def)
  have tA: "shape (T A) = [n, n]" using sh by (simp add: T_def)
  obtain o1 s1 where o1: "Clone (T A) s = (Inr o1, s1)" "frame s s1"
    "shape o1 = [n, n]" "strides o1 = [n, 1]" "blob o1 = next_blob s"
    "next_blob s1 = Suc (next_blob s)" "mat_of s1 o1 = mat_of s (T A)"
    "fdata s1 (blob o1) = flatten n n (mat_of s (T A))"
    by (rule Clone_run [OF tA])
  define s2 where "s2 = s1\<lparr>logged := logged s1 @ [''Unimplemented device.'']\<rparr>"
  have t1: "shape (T o1) = [n, n]" "blob (T o1) < next_blob s2"
    using o1 by (simp_all add: T_def s2_def)
  obtain o2 s3 where o2: "Contiguous (T o1) s2 = (Inr o2, s3)" "frame s2 s3"
    "shape o2 = [n, n]" "blob o2 < next_blob s3" "mat_of s3 o2 = mat_of s2 (T o1)"
    by (rule Contiguous_run [OF t1])
  have "mat_of s2 (T o1) = transpose_mat n n (mat_of s2 o1)" by (rule mat_of_T [OF o1(3)])
  also have "mat_of s2 o1 = mat_of s1 o1" by (simp add: s2_def mat_of_def)
  also have "mat_of s1 o1 = transpose_mat n n (mat_of s A)"
    using o1(7) by (simp add: mat_of_T [OF sh])
  finally have m: "mat_of s3 o2 = mat_of s A"
    using o2(5) by (simp add: transpose_mat_twice [OF mat_of_ok [OF sh]])
  have run: "LU_with_ipiv cfg be A ipiv output s = (Inr (ipiv, o2), s3)"
    using d o1(1) o2(1)
    by (simp add: LU_with_ipiv_valid [OF v] LogInfo_def s2_def returnE_def bindE_def)
  have "logged s3 = logged s2" "kernels s3 = kernels s2" "idata s3 = idata s2"
    using Contiguous_quiet [OF o2(1)] by simp_all
  moreover have "logged s1 = logged s" "kernels s1 = kernels s" "idata s1 = idata s"
    using Clone_quiet [OF o1(1)] by simp_all
  ultimately show ?thesis
    using run o2(3) m by (intro that [of o2 s3]) (simp_all add: s2_def)
qed

lemma Tensor_default_run:
  obtains h s' where "Tensor_default s = (Inr h, s')" "fdata s' = fdata s"
  by (rule that [of "\<lparr>shape = [0], strides = [1], blob = next_blob s, dtype = Undefined,
           device = Device CPU 0\<rparr>" "s\<lparr>next_blob := Suc (next_blob s)\<rparr>"])
     (simp_all add: Tensor_default_def)

lemma LU_run:
  assumes v: "valid_input n A" and d: "dispatch_ok cfg (device A)" and n: "n < 2 ^ 31"
    and k: "getrf_of be (device A) n (dtype A)
              (flatten n n (transpose_mat n n (mat_of s A))) = Inr (buf, piv)"
    and piv: "valid_pivots n piv"
    and inv: "inverse_impl be (gather (eye n) (decoded piv)) = Inr x" "mat_ok n n x"
  obtains P L U s' where "LU cfg be A permute_l s = (Inr (P, L, U), s')"
    "mat_of s' P = x"
    "mat_of s' L = (if permute_l then mat_mul n x (tril_unit n n (col_major n buf))
                    else tril_unit n n (col_major n buf))"
    "mat_of s' U = triu n n (col_major n buf)"
proof -
  obtain i0 s1 where i0: "Tensor_default s = (Inr i0, s1)" "fdata s1 = fdata s"
    by (rule Tensor_default_run)
  obtain o0 s2 where o0: "Tensor_default s1 = (Inr o0, s2)" "fdata s2 = fdata s1"
    by (rule Tensor_default_run)
  have A2: "mat_of s2 A = mat_of s A" using i0(2) o0(2) by (simp add: mat_of_def)
  have k2: "getrf_of be (device A) n (dtype A)
              (flatten n n (transpose_mat n n (mat_of s2 A))) = Inr (buf, piv)"
    using k A2 by simp
  obtain ip out s3 where f: "LU_with_ipiv cfg be A i0 o0 s2 = (Inr (ip, out), s3)"
    "shape out = [n, n]" "blob out < next_blob s3" "mat_of s3 out = col_major n buf"
    "shape ip = [n]" "blob ip < next_blob s3" "idata s3 (blob ip) = piv"
    "dtype ip = (if GetType (device A) = CUDA then Int32
       else if sizeof_OPEN3D_CPU_LINALG_INT cfg = 4 then Int32 else Int64)"
    "kernels s3 = kernels s2 @ [if GetType (device A) = CUDA then LUCUDA_kernel else LUCPU_kernel]"
    "logged s3 = logged s2"
    by (rule LU_with_ipiv_run [OF v d k2])
  have ipne: "shape ip \<noteq> []" using f(5) by simp
  have piv3: "valid_pivots n (idata s3 (blob ip))" using piv f(7) by simp
  have inv3: "inverse_impl be (gather (eye n) (decoded (idata s3 (blob ip)))) = Inr x"
    using inv(1) f(7) by simp
  obtain P L U s4 where r: "OutputToPLU be out ip permute_l s3 = (Inr (P, L, U), s4)"
    "frame s3 s4" "mat_of s4 P = x"
    "mat_of s4 L = (if permute_l then mat_mul n x (tril_unit n n (mat_of s3 out))
                    else tril_unit n n (mat_of s3 out))"
    "mat_of s4 U = triu n n (mat_of s3 out)"
    by (rule OutputToPLU_run [OF f(2,3) ipne f(6) piv3 n inv3 inv(2)])
  have "LU cfg be A permute_l s = (Inr (P, L, U), s4)"
    using i0(1) o0(1) f(1) r(1) by (simp add: LU_def)
  then show ?thesis using r f(4) by (intro that [of P L U s4]) simp_all
qed

section \<open>The concrete inputs, evaluated\<close>

lemma ex_mat: "mat_of ex_state ex_A = [[0, 0, 2], [4, 2, 0], [2, 3, 1]]"
  by code_simp

lemma LU_values_run:
  assumes "valid_input n A" "dispatch_ok cfg (device A)" "n < 2 ^ 31"
    and "getrf_of be (device A) n (dtype A)
              (flatten n n (transpose_mat n n (mat_of s A))) = Inr (buf, piv)"
    and "valid_pivots n piv"
    and "inverse_impl be (gather (eye n) (decoded piv)) = Inr x" "mat_ok n n x"
  shows "LU_values cfg be A permute_l s
     = Inr (x,
            (if permute_l then mat_mul n x (tril_unit n n (col_major n buf))
             else tril_unit n n (col_major n buf)),
            triu n n (col_major n buf))"
proof -
  obtain P L U s' where "LU cfg be A permute_l s = (Inr (P, L, U), s')"
    "mat_of s' P = x"
    "mat_of s' L = (if permute_l then mat_mul n x (tril_unit n n (col_major n buf))
                    else tril_unit n n (col_major n buf))"
    "mat_of s' U = triu n n (col_major n buf)"
    by (rule LU_run [OF assms])
  then show ?thesis by (simp add: LU_values_def)
qed

lemma ex_valid: "valid_input 3 ex_A" "dispatch_ok ex_build (device ex_A)"
  by code_simp+

lemma ex_getrf:
  "getrf_of ex_backend (device ex_A) 3 (dtype ex_A)
     (flatten 3 3 (transpose_mat 3 3 (mat_of ex_state ex_A)))
   = Inr ([4, 1 / 2, 0,  2, 2, 0,  0, 1, 2], [2, 3, 3])"
  by code_simp

lemma ex_pivots: "valid_pivots 3 [2, 3, 3]"
  by code_simp

lemma ex_inverse_impl:
  "inverse_impl ex_backend (gather (eye 3) (decoded [2, 3, 3])) = Inr [[0, 0, 1], [1, 0, 0], [0, 1, 0]]"
  by code_simp

lemma ex_ok: "mat_ok 3 3 [[0, 0, 1], [1, 0, 0], [0, 1, 0::rat]]"
  by code_simp

lemma ex_L: "tril_unit 3 3 (col_major 3 [4, 1 / 2, 0,  2, 2, 0,  0, 1, 2::rat])
   = [[1, 0, 0], [1 / 2, 1, 0], [0, 0, 1]]"
  by code_simp

lemma ex_U: "triu 3 3 (col_major 3 [4, 1 / 2, 0,  2, 2, 0,  0, 1, 2::rat])
   = [[4, 2, 0], [0, 2, 1], [0, 0, 2]]"
  by code_simp

lemma ex_PL: "mat_mul 3 [[0, 0, 1], [1, 0, 0], [0, 1, 0]] [[1, 0, 0], [1 / 2, 1, 0], [0, 0, 1::rat]]
   = [[0, 0, 1], [1, 0, 0], [1 / 2, 1, 0]]"
  by code_simp

lemma ex_LU_false:
  "LU_values ex_build ex_backend ex_A False ex_state
     = Inr ([[0, 0, 1], [1, 0, 0], [0, 1, 0]],
            [[1, 0, 0], [1 / 2, 1, 0], [0, 0, 1]],
            [[4, 2, 0], [0, 2, 1], [0, 0, 2]])"
  using LU_values_run [OF ex_valid _ ex_getrf ex_pivots ex_inverse_impl ex_ok, of False]
  by (simp add: ex_L ex_U)

lemma ex_LU_true:
  "LU_values ex_build ex_backend ex_A True ex_state
     = Inr ([[0, 0, 1], [1, 0, 0], [0, 1, 0]],
            [[0, 0, 1], [1, 0, 0], [1 / 2, 1, 0]],
            [[4, 2, 0], [0, 2, 1], [0, 0, 2]])"
  using LU_values_run [OF ex_valid _ ex_getrf ex_pivots ex_inverse_impl ex_ok, of True]
  by (simp add: ex_L ex_U ex_PL)

section \<open>The algebra of the reconstruction\<close>

lemma is_unit_lower_tril [simp]: "is_unit_lower n (tril_unit n n m)"
  by (simp add: is_unit_lower_def tril_unit_def list_all_iff)

lemma is_upper_triu [simp]: "is_upper n (triu n n m)"
  by (simp add: is_upper_def triu_def list_all_iff)

lemma reconstruct_algebra:
  assumes piv: "valid_pivots n piv" and a: "mat_ok n n a"
    and lu: "replay piv a = mat_mul n l u"
    and inv: "is_inverse n (gather (eye n) (decoded piv)) x"
  shows "x = transpose_mat n n (gather (eye n) (decoded piv))"
    and "a = mat_mul n x (mat_mul n l u)"
    and "mat_mul n (transpose_mat n n x) a = mat_mul n l u"
proof -
  let ?g = "gather (eye n) (decoded piv)"
  have p: "is_perm n (decoded piv)" using piv by (rule is_perm_decoded)
  have g: "mat_ok n n ?g" using p by (simp add: gather_ok)
  have x: "mat_ok n n x" "mat_mul n x ?g = eye n"
    using inv by (simp_all add: is_inverse_def)
  show xt: "x = transpose_mat n n ?g"
    by (rule inverse_unique [OF x(1) transpose_ok x(2) gather_eye_transpose_right [OF p]])
  have "length a = n" using a by (simp add: mat_ok_def)
  then have "gather a (decoded piv) = replay piv a" by (rule gather_decoded [OF piv])
  then have ga: "mat_mul n ?g a = mat_mul n l u"
    using gather_eye_mul [OF p a] lu by simp
  have "a = mat_mul n (mat_mul n x ?g) a" using x(2) a by (simp add: mat_mul_eye_left)
  also have "\<dots> = mat_mul n x (mat_mul n l u)" by (simp add: mat_mul_assoc ga)
  finally show "a = mat_mul n x (mat_mul n l u)" .
  show "mat_mul n (transpose_mat n n x) a = mat_mul n l u"
    unfolding xt transpose_mat_twice [OF g] by (rule ga)
qed

lemma valid_mat_ok: "valid_input n A \<Longrightarrow> mat_ok n n (mat_of s A)"
  by (simp add: valid_input_def mat_of_ok)

lemma LU_of_throw:
  assumes "LU_with_ipiv cfg be A = (\<lambda>ipiv output. throwE e)"
  shows "fst (LU cfg be A permute_l s) = Inl e"
  by (simp add: LU_def assms bindE_def Tensor_default_def throwE_def)

lemma validation_throws:
  "dtype A \<noteq> Float32 \<and> dtype A \<noteq> Float64
   \<Longrightarrow> LU_with_ipiv cfg be A = (\<lambda>ipiv output. throwE UnsupportedDtype)"
  "(dtype A = Float32 \<or> dtype A = Float64) \<and> length (shape A) \<noteq> 2
   \<Longrightarrow> LU_with_ipiv cfg be A = (\<lambda>ipiv output. throwE InvalidRank)"
  "(dtype A = Float32 \<or> dtype A = Float64) \<and> length (shape A) = 2
        \<and> shape A ! 0 \<noteq> shape A ! 1
   \<Longrightarrow> LU_with_ipiv cfg be A = (\<lambda>ipiv output. throwE NotSquare)"
  "(dtype A = Float32 \<or> dtype A = Float64) \<and> length (shape A) = 2
        \<and> shape A ! 0 = shape A ! 1 \<and> shape A ! 0 = 0
   \<Longrightarrow> LU_with_ipiv cfg be A = (\<lambda>ipiv output. throwE EmptyDimension)"
  by (auto simp: LU_with_ipiv_def fun_eq_iff)

lemma bindE_InrE:
  assumes "bindE m f s = (Inr y, s')"
  obtains x s1 where "m s = (Inr x, s1)" "f x s1 = (Inr y, s')"
proof -
  obtain r s1 where ms: "m s = (r, s1)" by (cases "m s")
  show ?thesis
  proof (cases r)
    case (Inl e)
    then show ?thesis using assms ms by (simp add: bindE_def)
  next
    case (Inr x)
    then show ?thesis using assms ms by (intro that [of x s1]) (simp_all add: bindE_def)
  qed
qed

lemma LU_with_ipiv_Inr_valid:
  assumes "LU_with_ipiv cfg be A ipiv output s = (Inr r, s')"
  shows "valid_input (shape A ! 0) A"
proof -
  have ne: "LU_with_ipiv cfg be A \<noteq> (\<lambda>ipiv output. throwE e)" for e
  proof
    assume "LU_with_ipiv cfg be A = (\<lambda>ipiv output. throwE e)"
    then have "LU_with_ipiv cfg be A ipiv output s = (Inl e, s)" by (simp add: throwE_def)
    with assms show False by simp
  qed
  have 1: "dtype A = Float32 \<or> dtype A = Float64"
    using validation_throws(1) [of A cfg be] ne by blast
  have 2: "length (shape A) = 2"
    using validation_throws(2) [of A cfg be] ne 1 by blast
  have 3: "shape A ! 0 = shape A ! 1"
    using validation_throws(3) [of A cfg be] ne 1 2 by blast
  have 4: "shape A ! 0 \<noteq> 0"
  proof
    assume "shape A ! 0 = 0"
    with 1 2 3 have "LU_with_ipiv cfg be A = (\<lambda>ipiv output. throwE EmptyDimension)"
      by (intro validation_throws(4)) simp
    with ne [of EmptyDimension] show False by simp
  qed
  have "shape A = [shape A ! 0, shape A ! 1]"
    using 2 by (cases "shape A"; cases "tl (shape A)") auto
  then have "shape A = [shape A ! 0, shape A ! 0]" using 3 by simp
  then show ?thesis using 1 4 by (simp add: valid_input_def)
qed

lemma keeps_next: "keeps 0 m \<Longrightarrow> next_blob s \<le> next_blob (snd (m s))"
  by (simp add: keeps_def)

lemma LU_with_ipiv_output_fresh:
  assumes "LU_with_ipiv cfg be A ipiv output s = (Inr (ip, out), s')"
  shows "next_blob s \<le> blob out"
proof -
  define n where "n = shape A ! 0"
  have v: "valid_input n A" unfolding n_def using assms by (rule LU_with_ipiv_Inr_valid)
  define K :: "Tensor \<Rightarrow> (Tensor, 'a) op" where "K = (\<lambda>output.
        (if GetType (device A) = CUDA then
           (if BUILD_CUDA_MODULE cfg then
              bindE (Empty n Int32 (device A)) (\<lambda>ipiv.
              bindE (LUCUDA be (blob output) (blob ipiv) n (dtype A) (device A)) (\<lambda>_.
              returnE ipiv))
            else
              bindE (LogInfo ''Unimplemented device.'') (\<lambda>_.
              returnE ipiv))
         else
           bindE
             (if sizeof_OPEN3D_CPU_LINALG_INT cfg = 4 then returnE Int32
              else if sizeof_OPEN3D_CPU_LINALG_INT cfg = 8 then returnE Int64
              else throwE UnsupportedIntegerWidth) (\<lambda>ipiv_dtype.
           bindE (Empty n ipiv_dtype (device A)) (\<lambda>ipiv.
           bindE (LUCPU be (blob output) (blob ipiv) n (dtype A) (device A)) (\<lambda>_.
           returnE ipiv)))))"
  have kK: "keeps 0 (K x)" for x
    unfolding K_def
    by (intro keeps_bindE_all keeps_if keeps_kernel_cpu keeps_kernel_cuda keeps_LogInfo
          keeps_returnE keeps_throwE) simp_all
  have eq: "LU_with_ipiv cfg be A ipiv output =
      bindE (Clone (T A)) (\<lambda>output. bindE (K output) (\<lambda>ipiv.
      bindE (Contiguous (T output)) (\<lambda>output. returnE (ipiv, output))))"
    unfolding K_def by (rule LU_with_ipiv_valid [OF v])
  obtain o1 s1 where o1: "Clone (T A) s = (Inr o1, s1)"
    and r1: "bindE (K o1) (\<lambda>ipiv. bindE (Contiguous (T o1)) (\<lambda>output. returnE (ipiv, output))) s1
       = (Inr (ip, out), s')"
    using assms unfolding eq by (rule bindE_InrE)
  obtain ip' s2 where k: "K o1 s1 = (Inr ip', s2)"
    and r2: "bindE (Contiguous (T o1)) (\<lambda>output. returnE (ip', output)) s2 = (Inr (ip, out), s')"
    using r1 by (rule bindE_InrE)
  obtain o2 s3 where c: "Contiguous (T o1) s2 = (Inr o2, s3)"
    and r3: "returnE (ip', o2) s3 = (Inr (ip, out), s')"
    using r2 by (rule bindE_InrE)
  have out: "out = o2" using r3 by (simp add: returnE_def)
  have b1: "blob o1 = next_blob s" using o1 by (rule Clone_blob)
  have n1: "next_blob s \<le> next_blob s1" using o1 by (auto simp: Clone_def new_mat_def)
  have n2: "next_blob s1 \<le> next_blob s2" using keeps_next [OF kK [of o1], of s1] k by simp
  have "blob o2 = blob o1 \<or> blob o2 = next_blob s2"
    using c by (auto simp: Contiguous_def returnE_def T_def dest: Clone_blob split: if_splits)
  then show ?thesis using out b1 n1 n2 by auto
qed

lemma LU_with_ipiv_values_degrade:
  assumes "valid_input n A" "GetType (device A) = CUDA" "\<not> BUILD_CUDA_MODULE cfg"
  shows "LU_with_ipiv_values cfg be A ipiv output s = Inr (ipiv, mat_of s A)"
    "kernels (snd (LU_with_ipiv cfg be A ipiv output s)) = kernels s"
proof -
  obtain output' s' where r: "LU_with_ipiv cfg be A ipiv output s = (Inr (ipiv, output'), s')"
    "shape output' = [n, n]" "mat_of s' output' = mat_of s A"
    "logged s' = logged s @ [''Unimplemented device.'']" "kernels s' = kernels s"
    "idata s' = idata s"
    by (rule LU_with_ipiv_degrade [OF assms])
  show "LU_with_ipiv_values cfg be A ipiv output s = Inr (ipiv, mat_of s A)"
    using r by (simp add: LU_with_ipiv_values_def)
  show "kernels (snd (LU_with_ipiv cfg be A ipiv output s)) = kernels s"
    using r by simp
qed

lemma ex_cuda_valid: "valid_input 3 ex_cuda_A" "GetType (device ex_cuda_A) = CUDA"
  "\<not> BUILD_CUDA_MODULE ex_build"
  by code_simp+

lemma ex_cuda_mat: "mat_of ex_state ex_cuda_A = [[0, 0, 2], [4, 2, 0], [2, 3, 1]]"
  by code_simp

lemma OutputToPLU_unassigned_ipiv:
  assumes "shape out = [n, n]" "0 < n" "shape ipiv = [0]" "dtype ipiv = Undefined"
    "idata s (blob ipiv) = []" "blob ipiv < next_blob s"
  obtains s' where "OutputToPLU be out ipiv permute_l s = (Inl OutOfBounds, s')"
    "logged s' = logged s" "kernels s' = kernels s"
proof -
  have sw: "swap_loop [] n 0 xs = Inl OutOfBounds" for xs
    using assms(2) by (subst swap_loop.simps) simp
  show ?thesis
    using assms
    by (intro that [of "snd (OutputToPLU be out ipiv permute_l s)"])
       (simp_all add: OutputToPLU_def shape_at_def Thiul_def new_mat_def GetColPermutation_def
          Arange_def To_def new_ivec_def bindE_def returnE_def throwE_def Let_def sw
          split: prod.splits sum.splits)
qed

lemma LU_degrade_raises:
  assumes "valid_input n A" "GetType (device A) = CUDA" "\<not> BUILD_CUDA_MODULE cfg"
    and e: "idata s (next_blob s) = []"
  obtains s' where "LU cfg be A permute_l s = (Inl OutOfBounds, s')"
    "logged s' = logged s @ [''Unimplemented device.'']" "kernels s' = kernels s"
proof -
  define i0 where "i0 = \<lparr>shape = [0], strides = [1], blob = next_blob s, dtype = Undefined,
           device = Device CPU 0\<rparr>"
  define s1 where "s1 = s\<lparr>next_blob := Suc (next_blob s)\<rparr>"
  define o0 where "o0 = \<lparr>shape = [0], strides = [1], blob = next_blob s1, dtype = Undefined,
           device = Device CPU 0\<rparr>"
  define s2 where "s2 = s1\<lparr>next_blob := Suc (next_blob s1)\<rparr>"
  have d1: "Tensor_default s = (Inr i0, s1)" by (simp add: Tensor_default_def i0_def s1_def)
  have d2: "Tensor_default s1 = (Inr o0, s2)" by (simp add: Tensor_default_def o0_def s2_def)
  obtain out s3 where r: "LU_with_ipiv cfg be A i0 o0 s2 = (Inr (i0, out), s3)"
    "shape out = [n, n]" "mat_of s3 out = mat_of s2 A"
    "logged s3 = logged s2 @ [''Unimplemented device.'']" "kernels s3 = kernels s2"
    "idata s3 = idata s2"
    by (rule LU_with_ipiv_degrade [OF assms(1-3)])
  have "frame s2 (snd (LU_with_ipiv cfg be A i0 o0 s2))"
    by (rule keeps_frame [OF keeps_LU_with_ipiv])
  then have nb: "next_blob s2 \<le> next_blob s3" using r(1) by (simp add: frame_def)
  have n: "0 < n" using assms(1) by (simp add: valid_input_def)
  have i: "shape i0 = [0]" "dtype i0 = Undefined" "idata s3 (blob i0) = []"
    "blob i0 < next_blob s3"
    using e nb r(6) by (simp_all add: i0_def s1_def s2_def)
  obtain s4 where p: "OutputToPLU be out i0 permute_l s3 = (Inl OutOfBounds, s4)"
    "logged s4 = logged s3" "kernels s4 = kernels s3"
    by (rule OutputToPLU_unassigned_ipiv [OF r(2) n i])
  have "LU cfg be A permute_l s = (Inl OutOfBounds, s4)"
    using d1 d2 r(1) p(1) by (simp add: LU_def)
  moreover have "logged s4 = logged s @ [''Unimplemented device.'']"
    using p(2) r(4) by (simp add: s1_def s2_def)
  moreover have "kernels s4 = kernels s" using p(3) r(5) by (simp add: s1_def s2_def)
  ultimately show ?thesis by (rule that)
qed

section \<open>The claims\<close>

text \<open>
  Claim C1, amended. For every valid square matrix \<open>A\<close> of size \<open>n \<ge> 1\<close> whose kernel and
  inverse honour their contracts, \<^verbatim>\<open>LU\<close> returns \<open>P\<close>, \<open>L\<close>, \<open>U\<close> with \<open>A = P \<cdot> L \<cdot> U\<close>
  (equivalently \<open>P\<^sup>T \<cdot> A = L \<cdot> U\<close>), \<open>L\<close> unit-lower-triangular and \<open>U\<close> upper-triangular,
  when \<open>permute_l\<close> is false; when it is true it returns the same \<open>P\<close> and \<open>U\<close> and the
  lower factor \<open>L' = P \<cdot> L\<close> for that \<open>L\<close>, and \<open>A = L' \<cdot> U\<close>. The claim's
  \<open>P \<cdot> A = L \<cdot> U\<close> does not hold: \<^verbatim>\<open>OutputToPLU\<close> inverts the gathered matrix
  (``Calculating P in A = P.L.U''), and the third theorem below evaluates the code at a
  matrix where \<open>P \<cdot> A\<close> and \<open>L \<cdot> U\<close> differ and where, with \<open>permute_l\<close>, the lower factor
  is not triangular.
\<close>

theorem LU_reconstructs_A:
  assumes "valid_input n A" "dispatch_ok cfg (device A)" "n < 2 ^ 31"
    and "getrf_of be (device A) n (dtype A)
              (flatten n n (transpose_mat n n (mat_of s A))) = Inr (buf, piv)"
    and "getrf_contract n (mat_of s A) buf piv"
    and "inverse_impl be (gather (eye n) (decoded piv)) = Inr x"
    and "is_inverse n (gather (eye n) (decoded piv)) x"
  shows "\<exists>P L U. LU_values cfg be A False s = Inr (P, L, U)
            \<and> mat_of s A = mat_mul n P (mat_mul n L U)
            \<and> mat_mul n (transpose_mat n n P) (mat_of s A) = mat_mul n L U
            \<and> is_unit_lower n L \<and> is_upper n U
            \<and> LU_values cfg be A True s = Inr (P, mat_mul n P L, U)
            \<and> mat_of s A = mat_mul n (mat_mul n P L) U"
proof -
  let ?l = "tril_unit n n (col_major n buf)" and ?u = "triu n n (col_major n buf)"
  have piv: "valid_pivots n piv" and lu: "replay piv (mat_of s A) = mat_mul n ?l ?u"
    using assms(5) by (simp_all add: getrf_contract_def)
  have x: "mat_ok n n x" using assms(7) by (simp add: is_inverse_def)
  note run = LU_values_run [OF assms(1-4) piv assms(6) x]
  note alg = reconstruct_algebra [OF piv valid_mat_ok [OF assms(1)] lu assms(7)]
  have "mat_of s A = mat_mul n (mat_mul n x ?l) ?u"
    using alg(2) by (simp add: mat_mul_assoc)
  then show ?thesis using run [of False] run [of True] alg(2,3) by simp
qed

theorem LU_reconstructs_A_witness:
  "valid_input 3 ex_A \<and> dispatch_ok ex_build (device ex_A) \<and> (3::nat) < 2 ^ 31
   \<and> getrf_of ex_backend (device ex_A) 3 (dtype ex_A)
        (flatten 3 3 (transpose_mat 3 3 (mat_of ex_state ex_A)))
      = Inr ([4, 1 / 2, 0,  2, 2, 0,  0, 1, 2], [2, 3, 3])
   \<and> getrf_contract 3 (mat_of ex_state ex_A) [4, 1 / 2, 0,  2, 2, 0,  0, 1, 2] [2, 3, 3]
   \<and> inverse_impl ex_backend (gather (eye 3) (decoded [2, 3, 3]))
      = Inr [[0, 0, 1], [1, 0, 0], [0, 1, 0]]
   \<and> is_inverse 3 (gather (eye 3) (decoded [2, 3, 3])) [[0, 0, 1], [1, 0, 0], [0, 1, 0::rat]]
   \<and> (\<exists>P L U. LU_values ex_build ex_backend ex_A False ex_state = Inr (P, L, U)
            \<and> mat_of ex_state ex_A = mat_mul 3 P (mat_mul 3 L U)
            \<and> mat_mul 3 (transpose_mat 3 3 P) (mat_of ex_state ex_A) = mat_mul 3 L U
            \<and> is_unit_lower 3 L \<and> is_upper 3 U
            \<and> LU_values ex_build ex_backend ex_A True ex_state = Inr (P, mat_mul 3 P L, U)
            \<and> mat_of ex_state ex_A = mat_mul 3 (mat_mul 3 P L) U)"
proof -
  have c: "getrf_contract 3 (mat_of ex_state ex_A) [4, 1 / 2, 0,  2, 2, 0,  0, 1, 2] [2, 3, 3]"
    by code_simp
  have i: "is_inverse 3 (gather (eye 3) (decoded [2, 3, 3])) [[0, 0, 1], [1, 0, 0], [0, 1, 0::rat]]"
    by code_simp
  have n: "(3::nat) < 2 ^ 31" by simp
  show ?thesis
    using LU_reconstructs_A [OF ex_valid n ex_getrf c ex_inverse_impl i] ex_valid n ex_getrf c
      ex_inverse_impl i
    by blast
qed

theorem LU_permutation_is_not_left_applied:
  "valid_input 3 ex_A
   \<and> getrf_contract 3 (mat_of ex_state ex_A) [4, 1 / 2, 0,  2, 2, 0,  0, 1, 2] [2, 3, 3]
   \<and> is_inverse 3 (gather (eye 3) (decoded [2, 3, 3])) [[0, 0, 1], [1, 0, 0], [0, 1, 0::rat]]
   \<and> LU_values ex_build ex_backend ex_A False ex_state
       = Inr ([[0, 0, 1], [1, 0, 0], [0, 1, 0]],
              [[1, 0, 0], [1 / 2, 1, 0], [0, 0, 1]],
              [[4, 2, 0], [0, 2, 1], [0, 0, 2]])
   \<and> mat_mul 3 [[0, 0, 1], [1, 0, 0], [0, 1, 0]] (mat_of ex_state ex_A)
       = [[2, 3, 1], [0, 0, 2], [4, 2, 0]]
   \<and> mat_mul 3 [[1, 0, 0], [1 / 2, 1, 0], [0, 0, 1]] [[4, 2, 0], [0, 2, 1], [0, 0, 2]]
       = [[4, 2, 0], [2, 3, 1], [0, 0, 2::rat]]
   \<and> mat_mul 3 [[0, 0, 1], [1, 0, 0], [0, 1, 0]] (mat_of ex_state ex_A)
       \<noteq> mat_mul 3 [[1, 0, 0], [1 / 2, 1, 0], [0, 0, 1]] [[4, 2, 0], [0, 2, 1], [0, 0, 2]]
   \<and> LU_values ex_build ex_backend ex_A True ex_state
       = Inr ([[0, 0, 1], [1, 0, 0], [0, 1, 0]],
              [[0, 0, 1], [1, 0, 0], [1 / 2, 1, 0]],
              [[4, 2, 0], [0, 2, 1], [0, 0, 2]])
   \<and> \<not> is_unit_lower 3 [[0, 0, 1], [1, 0, 0], [1 / 2, 1, 0::rat]]"
proof -
  have "getrf_contract 3 (mat_of ex_state ex_A) [4, 1 / 2, 0,  2, 2, 0,  0, 1, 2] [2, 3, 3]"
    by code_simp
  moreover have "is_inverse 3 (gather (eye 3) (decoded [2, 3, 3]))
      [[0, 0, 1], [1, 0, 0], [0, 1, 0::rat]]"
    by code_simp
  moreover have "mat_mul 3 [[0, 0, 1], [1, 0, 0], [0, 1, 0]] (mat_of ex_state ex_A)
       = [[2, 3, 1], [0, 0, 2], [4, 2, 0]]"
    by code_simp
  moreover have "mat_mul 3 [[1, 0, 0], [1 / 2, 1, 0], [0, 0, 1]] [[4, 2, 0], [0, 2, 1], [0, 0, 2]]
       = [[4, 2, 0], [2, 3, 1], [0, 0, 2::rat]]"
    by code_simp
  moreover have "mat_mul 3 [[0, 0, 1], [1, 0, 0], [0, 1, 0]] (mat_of ex_state ex_A)
       \<noteq> mat_mul 3 [[1, 0, 0], [1 / 2, 1, 0], [0, 0, 1]] [[4, 2, 0], [0, 2, 1], [0, 0, 2]]"
    by code_simp
  moreover have "\<not> is_unit_lower 3 [[0, 0, 1], [1, 0, 0], [1 / 2, 1, 0::rat]]"
    by code_simp
  ultimately show ?thesis using ex_valid(1) ex_LU_false ex_LU_true by blast
qed

text \<open>
  Claim C2. For every pivot array of length \<open>n\<close> with 1-based entries in \<open>[1, n]\<close>, the loop
  of \<^verbatim>\<open>GetColPermutation\<close> starts from the identity sequence and swaps \<open>full[i]\<close> with
  \<open>full[pivotArray[i] - 1]\<close> for \<open>i = 0, \<dots>, n - 1\<close> in increasing order, and the tensor it
  returns holds that sequence; for the pivot array \<open>[2, 2, 3]\<close> the swaps at 0, 1 and 2 give
  \<open>[1, 0, 2]\<close>, which is not the per-index lookup \<open>[1, 1, 2]\<close>.
\<close>

theorem GetColPermutation_replays_swaps:
  assumes "valid_pivots n (idata s (blob ipiv))" "n < 2 ^ 31" "blob ipiv < next_blob s"
  shows "swap_loop (idata s (blob ipiv)) n 0 (map int [0..<n])
           = Inr (replay (idata s (blob ipiv)) (map int [0..<n]))
       \<and> (\<exists>full s'. GetColPermutation ipiv k n s = (Inr full, s')
             \<and> idata s' (blob full) = replay (idata s (blob ipiv)) (map int [0..<n]))
       \<and> swap_loop [2, 2, 3] 3 0 (map int [0..<3]) = Inr [1, 0, 2]
       \<and> replay [2, 2, 3] (map int [0..<3]) = swap_at (swap_at (swap_at [0, 1, 2] 0 1) 1 1) 2 2
       \<and> replay [2, 2, 3] (map int [0..<3]) = [1, 0, 2]
       \<and> replay [2, 2, 3] (map int [0..<3]) \<noteq> map (\<lambda>x. x - 1) [2, 2, 3]"
proof -
  have len: "length (idata s (blob ipiv)) = n" using assms(1) by (simp add: valid_pivots_def)
  have d: "decoded (idata s (blob ipiv)) = replay (idata s (blob ipiv)) (map int [0..<n])"
    by (simp add: decoded_def len)
  obtain h s' where "GetColPermutation ipiv k n s = (Inr h, s')" "frame s s'"
    "blob h < next_blob s'" "idata s' (blob h) = decoded (idata s (blob ipiv))"
    by (rule GetColPermutation_run [OF assms])
  then have "\<exists>full s'. GetColPermutation ipiv k n s = (Inr full, s')
             \<and> idata s' (blob full) = replay (idata s (blob ipiv)) (map int [0..<n])"
    using d by auto
  moreover have "swap_loop (idata s (blob ipiv)) n 0 (map int [0..<n])
           = Inr (replay (idata s (blob ipiv)) (map int [0..<n]))"
    using swap_loop_replay [OF assms(1)] d by simp
  moreover have "swap_loop [2, 2, 3] 3 0 (map int [0..<3]) = Inr [1, 0, 2]"
    "replay [2, 2, 3] (map int [0..<3]) = swap_at (swap_at (swap_at [0, 1, 2] 0 1) 1 1) 2 2"
    "replay [2, 2, 3] (map int [0..<3]) = [1, 0, 2]"
    "replay [2, 2, 3] (map int [0..<3]) \<noteq> map (\<lambda>x. x - 1) [2, 2, 3]"
    by code_simp+
  ultimately show ?thesis by blast
qed

theorem GetColPermutation_replays_swaps_witness:
  "valid_pivots 3 (idata ex_pivot_state (blob ex_pivot_tensor)) \<and> (3::nat) < 2 ^ 31
   \<and> blob ex_pivot_tensor < next_blob ex_pivot_state
   \<and> swap_loop (idata ex_pivot_state (blob ex_pivot_tensor)) 3 0 (map int [0..<3]) = Inr [1, 0, 2]
   \<and> (\<exists>full s'. GetColPermutation ex_pivot_tensor 3 3 ex_pivot_state = (Inr full, s')
         \<and> idata s' (blob full) = [1, 0, 2])"
proof -
  have v: "valid_pivots 3 (idata ex_pivot_state (blob ex_pivot_tensor))" by code_simp
  have n: "(3::nat) < 2 ^ 31" by simp
  have b: "blob ex_pivot_tensor < next_blob ex_pivot_state" by code_simp
  have r: "replay (idata ex_pivot_state (blob ex_pivot_tensor)) (map int [0..<3]) = [1, 0, 2]"
    by code_simp
  show ?thesis
    using GetColPermutation_replays_swaps [OF v n b, of 3] v n b unfolding r by blast
qed

text \<open>
  Claim C3. The reconstructor gathers rows of the identity with the full permutation as
  indices and inverts the gathered matrix. For every permutation index vector the
  transpose of the gathered matrix is a two-sided inverse of it, and every two-sided
  inverse is that transpose; the returned \<open>P\<close> is the inverse the collaborator computed,
  hence the transpose, and it satisfies \<open>A = P \<cdot> L \<cdot> U\<close> and \<open>P\<^sup>T \<cdot> A = L \<cdot> U\<close>.
\<close>

theorem permutation_by_inverse_is_transpose:
  assumes "valid_input n A" "dispatch_ok cfg (device A)" "n < 2 ^ 31"
    and "getrf_of be (device A) n (dtype A)
              (flatten n n (transpose_mat n n (mat_of s A))) = Inr (buf, piv)"
    and "getrf_contract n (mat_of s A) buf piv"
    and "inverse_impl be (gather (eye n) (decoded piv)) = Inr x"
    and "is_inverse n (gather (eye n) (decoded piv)) x"
  shows "(\<forall>p y. is_perm n p \<and> is_inverse n (gather (eye n) p) (y :: 'a::comm_ring_1 list list)
            \<longrightarrow> y = transpose_mat n n (gather (eye n) p))
       \<and> (\<forall>p. is_perm n p
            \<longrightarrow> is_inverse n (gather (eye n) p)
                  (transpose_mat n n (gather (eye n) p) :: 'a list list))
       \<and> (\<exists>P L U. LU_values cfg be A False s = Inr (P, L, U)
            \<and> P = x
            \<and> P = transpose_mat n n (gather (eye n) (decoded piv))
            \<and> mat_of s A = mat_mul n P (mat_mul n L U)
            \<and> mat_mul n (transpose_mat n n P) (mat_of s A) = mat_mul n L U)"
proof -
  have inv: "y = transpose_mat n n (gather (eye n) p)"
    if "is_perm n p" "is_inverse n (gather (eye n) p) y" for p and y :: "'a list list"
  proof -
    have "mat_ok n n y" "mat_mul n y (gather (eye n) p) = eye n"
      using that(2) by (simp_all add: is_inverse_def)
    then show ?thesis
      by (rule inverse_unique [OF _ transpose_ok _ gather_eye_transpose_right [OF that(1)]])
  qed
  let ?l = "tril_unit n n (col_major n buf)" and ?u = "triu n n (col_major n buf)"
  have piv: "valid_pivots n piv" and lu: "replay piv (mat_of s A) = mat_mul n ?l ?u"
    using assms(5) by (simp_all add: getrf_contract_def)
  have x: "mat_ok n n x" using assms(7) by (simp add: is_inverse_def)
  note run = LU_values_run [OF assms(1-4) piv assms(6) x, of False]
  note alg = reconstruct_algebra [OF piv valid_mat_ok [OF assms(1)] lu assms(7)]
  have ti: "is_inverse n (gather (eye n) p) (transpose_mat n n (gather (eye n) p) :: 'a list list)"
    if "is_perm n p" for p
    using that by (rule transpose_is_inverse)
  show ?thesis using inv ti run alg by simp
qed

theorem permutation_by_inverse_is_transpose_witness:
  "valid_input 3 ex_A \<and> dispatch_ok ex_build (device ex_A) \<and> (3::nat) < 2 ^ 31
   \<and> getrf_of ex_backend (device ex_A) 3 (dtype ex_A)
        (flatten 3 3 (transpose_mat 3 3 (mat_of ex_state ex_A)))
      = Inr ([4, 1 / 2, 0,  2, 2, 0,  0, 1, 2], [2, 3, 3])
   \<and> getrf_contract 3 (mat_of ex_state ex_A) [4, 1 / 2, 0,  2, 2, 0,  0, 1, 2] [2, 3, 3]
   \<and> inverse_impl ex_backend (gather (eye 3) (decoded [2, 3, 3]))
      = Inr [[0, 0, 1], [1, 0, 0], [0, 1, 0]]
   \<and> is_perm 3 [1, 2, 0]
   \<and> is_inverse 3 (gather (eye 3) [1, 2, 0]) [[0, 0, 1], [1, 0, 0], [0, 1, 0::rat]]
   \<and> [[0, 0, 1], [1, 0, 0], [0, 1, 0::rat]] = transpose_mat 3 3 (gather (eye 3) [1, 2, 0])
   \<and> (\<exists>P L U. LU_values ex_build ex_backend ex_A False ex_state = Inr (P, L, U)
            \<and> P = transpose_mat 3 3 (gather (eye 3) (decoded [2, 3, 3]))
            \<and> mat_of ex_state ex_A = mat_mul 3 P (mat_mul 3 L U)
            \<and> mat_mul 3 (transpose_mat 3 3 P) (mat_of ex_state ex_A) = mat_mul 3 L U)"
proof -
  have c: "getrf_contract 3 (mat_of ex_state ex_A) [4, 1 / 2, 0,  2, 2, 0,  0, 1, 2] [2, 3, 3]"
    by code_simp
  have i: "is_inverse 3 (gather (eye 3) (decoded [2, 3, 3])) [[0, 0, 1], [1, 0, 0], [0, 1, 0::rat]]"
    by code_simp
  have p: "is_perm 3 [1, 2, 0]" by code_simp
  have i': "is_inverse 3 (gather (eye 3) [1, 2, 0]) [[0, 0, 1], [1, 0, 0], [0, 1, 0::rat]]"
    by code_simp
  have n: "(3::nat) < 2 ^ 31" by simp
  note t = permutation_by_inverse_is_transpose [OF ex_valid n ex_getrf c ex_inverse_impl i]
  have "[[0, 0, 1], [1, 0, 0], [0, 1, 0::rat]] = transpose_mat 3 3 (gather (eye 3) [1, 2, 0])"
    using t p i' by blast
  moreover have "\<exists>P L U. LU_values ex_build ex_backend ex_A False ex_state = Inr (P, L, U)
            \<and> P = transpose_mat 3 3 (gather (eye 3) (decoded [2, 3, 3]))
            \<and> mat_of ex_state ex_A = mat_mul 3 P (mat_mul 3 L U)
            \<and> mat_mul 3 (transpose_mat 3 3 P) (mat_of ex_state ex_A) = mat_mul 3 L U"
    using t by blast
  ultimately show ?thesis
    using ex_valid n ex_getrf c ex_inverse_impl p i' by blast
qed

text \<open>
  Claim C4. The driver checks, in this order and each with its own error: the element type
  is \<open>Float32\<close> or \<open>Float64\<close> (else \<open>UnsupportedDtype\<close>), the rank is 2 (else \<open>InvalidRank\<close>),
  the two dimensions are equal (else \<open>NotSquare\<close>), the dimension is not zero (else
  \<open>EmptyDimension\<close>); \<^verbatim>\<open>LU\<close> raises the same errors. The theorem after this one runs both
  functions on an integer-typed, a one-dimensional, a \<open>3 \<times> 4\<close> and a \<open>0 \<times> 0\<close> input.
\<close>

theorem validation_order:
  "(dtype A \<noteq> Float32 \<and> dtype A \<noteq> Float64
      \<longrightarrow> fst (LU_with_ipiv cfg be A ipiv output s) = Inl UnsupportedDtype
        \<and> fst (LU cfg be A permute_l s) = Inl UnsupportedDtype)
   \<and> ((dtype A = Float32 \<or> dtype A = Float64) \<and> length (shape A) \<noteq> 2
      \<longrightarrow> fst (LU_with_ipiv cfg be A ipiv output s) = Inl InvalidRank
        \<and> fst (LU cfg be A permute_l s) = Inl InvalidRank)
   \<and> ((dtype A = Float32 \<or> dtype A = Float64) \<and> length (shape A) = 2
        \<and> shape A ! 0 \<noteq> shape A ! 1
      \<longrightarrow> fst (LU_with_ipiv cfg be A ipiv output s) = Inl NotSquare
        \<and> fst (LU cfg be A permute_l s) = Inl NotSquare)
   \<and> ((dtype A = Float32 \<or> dtype A = Float64) \<and> length (shape A) = 2
        \<and> shape A ! 0 = shape A ! 1 \<and> shape A ! 0 = 0
      \<longrightarrow> fst (LU_with_ipiv cfg be A ipiv output s) = Inl EmptyDimension
        \<and> fst (LU cfg be A permute_l s) = Inl EmptyDimension)"
proof (intro conjI impI)
  assume a: "dtype A \<noteq> Float32 \<and> dtype A \<noteq> Float64"
  then have t: "LU_with_ipiv cfg be A = (\<lambda>ipiv output. throwE UnsupportedDtype)"
    by (rule validation_throws)
  show "fst (LU_with_ipiv cfg be A ipiv output s) = Inl UnsupportedDtype"
    by (simp add: t throwE_def)
  show "fst (LU cfg be A permute_l s) = Inl UnsupportedDtype" by (rule LU_of_throw [OF t])
next
  assume a: "(dtype A = Float32 \<or> dtype A = Float64) \<and> length (shape A) \<noteq> 2"
  then have t: "LU_with_ipiv cfg be A = (\<lambda>ipiv output. throwE InvalidRank)"
    by (rule validation_throws)
  show "fst (LU_with_ipiv cfg be A ipiv output s) = Inl InvalidRank"
    by (simp add: t throwE_def)
  show "fst (LU cfg be A permute_l s) = Inl InvalidRank" by (rule LU_of_throw [OF t])
next
  assume a: "(dtype A = Float32 \<or> dtype A = Float64) \<and> length (shape A) = 2
        \<and> shape A ! 0 \<noteq> shape A ! 1"
  then have t: "LU_with_ipiv cfg be A = (\<lambda>ipiv output. throwE NotSquare)"
    by (rule validation_throws)
  show "fst (LU_with_ipiv cfg be A ipiv output s) = Inl NotSquare"
    by (simp add: t throwE_def)
  show "fst (LU cfg be A permute_l s) = Inl NotSquare" by (rule LU_of_throw [OF t])
next
  assume a: "(dtype A = Float32 \<or> dtype A = Float64) \<and> length (shape A) = 2
        \<and> shape A ! 0 = shape A ! 1 \<and> shape A ! 0 = 0"
  then have t: "LU_with_ipiv cfg be A = (\<lambda>ipiv output. throwE EmptyDimension)"
    by (rule validation_throws)
  show "fst (LU_with_ipiv cfg be A ipiv output s) = Inl EmptyDimension"
    by (simp add: t throwE_def)
  show "fst (LU cfg be A permute_l s) = Inl EmptyDimension" by (rule LU_of_throw [OF t])
qed

theorem validation_order_witness:
  "(dtype ex_int_A \<noteq> Float32 \<and> dtype ex_int_A \<noteq> Float64)
   \<and> fst (LU_with_ipiv ex_build ex_backend ex_int_A ex_ipiv ex_output ex_state) = Inl UnsupportedDtype
   \<and> fst (LU ex_build ex_backend ex_int_A False ex_state) = Inl UnsupportedDtype
   \<and> ((dtype ex_vector_A = Float32 \<or> dtype ex_vector_A = Float64)
     \<and> length (shape ex_vector_A) \<noteq> 2)
   \<and> fst (LU_with_ipiv ex_build ex_backend ex_vector_A ex_ipiv ex_output ex_state) = Inl InvalidRank
   \<and> fst (LU ex_build ex_backend ex_vector_A False ex_state) = Inl InvalidRank
   \<and> ((dtype ex_3x4_A = Float32 \<or> dtype ex_3x4_A = Float64) \<and> length (shape ex_3x4_A) = 2
        \<and> shape ex_3x4_A ! 0 \<noteq> shape ex_3x4_A ! 1)
   \<and> fst (LU_with_ipiv ex_build ex_backend ex_3x4_A ex_ipiv ex_output ex_state) = Inl NotSquare
   \<and> fst (LU ex_build ex_backend ex_3x4_A False ex_state) = Inl NotSquare
   \<and> ((dtype ex_0x0_A = Float32 \<or> dtype ex_0x0_A = Float64) \<and> length (shape ex_0x0_A) = 2
        \<and> shape ex_0x0_A ! 0 = shape ex_0x0_A ! 1 \<and> shape ex_0x0_A ! 0 = 0)
   \<and> fst (LU_with_ipiv ex_build ex_backend ex_0x0_A ex_ipiv ex_output ex_state) = Inl EmptyDimension
   \<and> fst (LU ex_build ex_backend ex_0x0_A False ex_state) = Inl EmptyDimension"
proof -
  have a: "dtype ex_int_A \<noteq> Float32 \<and> dtype ex_int_A \<noteq> Float64" by code_simp
  have b: "(dtype ex_vector_A = Float32 \<or> dtype ex_vector_A = Float64)
     \<and> length (shape ex_vector_A) \<noteq> 2" by code_simp
  have c: "(dtype ex_3x4_A = Float32 \<or> dtype ex_3x4_A = Float64) \<and> length (shape ex_3x4_A) = 2
        \<and> shape ex_3x4_A ! 0 \<noteq> shape ex_3x4_A ! 1" by code_simp
  have d: "(dtype ex_0x0_A = Float32 \<or> dtype ex_0x0_A = Float64) \<and> length (shape ex_0x0_A) = 2
        \<and> shape ex_0x0_A ! 0 = shape ex_0x0_A ! 1 \<and> shape ex_0x0_A ! 0 = 0" by code_simp
  note v1 = validation_order [of ex_int_A ex_build ex_backend ex_ipiv ex_output ex_state False]
  note v2 = validation_order [of ex_vector_A ex_build ex_backend ex_ipiv ex_output ex_state False]
  note v3 = validation_order [of ex_3x4_A ex_build ex_backend ex_ipiv ex_output ex_state False]
  note v4 = validation_order [of ex_0x0_A ex_build ex_backend ex_ipiv ex_output ex_state False]
  note r1 = v1 [THEN conjunct1, rule_format, OF a]
  note r2 = v2 [THEN conjunct2, THEN conjunct1, rule_format, OF b]
  note r3 = v3 [THEN conjunct2, THEN conjunct2, THEN conjunct1, rule_format, OF c]
  note r4 = v4 [THEN conjunct2, THEN conjunct2, THEN conjunct2, rule_format, OF d]
  show ?thesis
    using a b c d r1 r2 r3 r4 by blast
qed

text \<open>
  Claim C5. With \<open>permute_l\<close> true the returned lower factor is \<open>L' = P \<cdot> L\<close>, where \<open>L\<close> is
  the unit-lower-triangular factor returned for the same input with \<open>permute_l\<close> false and
  \<open>P\<close> is the returned permutation matrix; \<open>P\<close> and the upper-triangular \<open>U\<close> are the same
  in both calls. This needs only pivots in range and a working inverse; when the kernel
  honours its contract, \<open>A = L' \<cdot> U\<close> holds directly (and \<open>A = P \<cdot> L \<cdot> U\<close>).
\<close>

theorem permute_l_folds_P_into_L:
  assumes "valid_input n A" "dispatch_ok cfg (device A)" "n < 2 ^ 31"
    and "getrf_of be (device A) n (dtype A)
              (flatten n n (transpose_mat n n (mat_of s A))) = Inr (buf, piv)"
    and "valid_pivots n piv"
    and "inverse_impl be (gather (eye n) (decoded piv)) = Inr x"
    and "is_inverse n (gather (eye n) (decoded piv)) x"
  shows "\<exists>P L L' U. LU_values cfg be A True s = Inr (P, L', U)
            \<and> LU_values cfg be A False s = Inr (P, L, U)
            \<and> L' = mat_mul n P L
            \<and> is_permutation_matrix n P \<and> is_unit_lower n L \<and> is_upper n U
            \<and> (getrf_contract n (mat_of s A) buf piv
                 \<longrightarrow> mat_of s A = mat_mul n L' U
                   \<and> mat_of s A = mat_mul n P (mat_mul n L U))"
proof -
  let ?l = "tril_unit n n (col_major n buf)" and ?u = "triu n n (col_major n buf)"
  have p: "is_perm n (decoded piv)" using assms(5) by (rule is_perm_decoded)
  have x: "mat_ok n n x" "mat_mul n x (gather (eye n) (decoded piv)) = eye n"
    using assms(7) by (simp_all add: is_inverse_def)
  have "x = transpose_mat n n (gather (eye n) (decoded piv))"
    by (rule inverse_unique [OF x(1) transpose_ok x(2) gather_eye_transpose_right [OF p]])
  then have pm: "is_permutation_matrix n x" using perm_matrix_gather [OF p] by simp
  note run = LU_values_run [OF assms(1-6) x(1)]
  have rec: "mat_of s A = mat_mul n (mat_mul n x ?l) ?u"
      "mat_of s A = mat_mul n x (mat_mul n ?l ?u)"
    if "getrf_contract n (mat_of s A) buf piv"
  proof -
    have lu: "replay piv (mat_of s A) = mat_mul n ?l ?u"
      using that by (simp add: getrf_contract_def)
    note alg = reconstruct_algebra [OF assms(5) valid_mat_ok [OF assms(1)] lu assms(7)]
    show "mat_of s A = mat_mul n x (mat_mul n ?l ?u)" by (rule alg(2))
    then show "mat_of s A = mat_mul n (mat_mul n x ?l) ?u" by (simp add: mat_mul_assoc)
  qed
  show ?thesis using run [of False] run [of True] pm rec by simp
qed

theorem permute_l_folds_P_into_L_witness:
  "valid_input 3 ex_A \<and> dispatch_ok ex_build (device ex_A) \<and> (3::nat) < 2 ^ 31
   \<and> getrf_of ex_backend (device ex_A) 3 (dtype ex_A)
        (flatten 3 3 (transpose_mat 3 3 (mat_of ex_state ex_A)))
      = Inr ([4, 1 / 2, 0,  2, 2, 0,  0, 1, 2], [2, 3, 3])
   \<and> valid_pivots 3 [2, 3, 3]
   \<and> inverse_impl ex_backend (gather (eye 3) (decoded [2, 3, 3]))
      = Inr [[0, 0, 1], [1, 0, 0], [0, 1, 0]]
   \<and> is_inverse 3 (gather (eye 3) (decoded [2, 3, 3])) [[0, 0, 1], [1, 0, 0], [0, 1, 0::rat]]
   \<and> getrf_contract 3 (mat_of ex_state ex_A) [4, 1 / 2, 0,  2, 2, 0,  0, 1, 2] [2, 3, 3]
   \<and> (\<exists>P L L' U. LU_values ex_build ex_backend ex_A True ex_state = Inr (P, L', U)
            \<and> LU_values ex_build ex_backend ex_A False ex_state = Inr (P, L, U)
            \<and> L' = mat_mul 3 P L
            \<and> is_permutation_matrix 3 P \<and> is_unit_lower 3 L \<and> is_upper 3 U
            \<and> mat_of ex_state ex_A = mat_mul 3 L' U
            \<and> mat_of ex_state ex_A = mat_mul 3 P (mat_mul 3 L U))"
proof -
  have c: "getrf_contract 3 (mat_of ex_state ex_A) [4, 1 / 2, 0,  2, 2, 0,  0, 1, 2] [2, 3, 3]"
    by code_simp
  have i: "is_inverse 3 (gather (eye 3) (decoded [2, 3, 3])) [[0, 0, 1], [1, 0, 0], [0, 1, 0::rat]]"
    by code_simp
  have n: "(3::nat) < 2 ^ 31" by simp
  show ?thesis
    using permute_l_folds_P_into_L [OF ex_valid n ex_getrf ex_pivots ex_inverse_impl i] ex_valid n
      ex_getrf ex_pivots c ex_inverse_impl i
    by blast
qed

text \<open>
  Claim C6. For every \<open>n\<close> and every valid input, the returned \<open>P\<close> is a permutation matrix:
  exactly one entry 1 in each row and in each column, every other entry 0.
\<close>

theorem returned_P_is_permutation_matrix:
  assumes "valid_input n A" "dispatch_ok cfg (device A)" "n < 2 ^ 31"
    and "getrf_of be (device A) n (dtype A)
              (flatten n n (transpose_mat n n (mat_of s A))) = Inr (buf, piv)"
    and "valid_pivots n piv"
    and "inverse_impl be (gather (eye n) (decoded piv)) = Inr x"
    and "is_inverse n (gather (eye n) (decoded piv)) x"
  shows "\<exists>P L U. LU_values cfg be A permute_l s = Inr (P, L, U) \<and> is_permutation_matrix n P"
proof -
  have p: "is_perm n (decoded piv)" using assms(5) by (rule is_perm_decoded)
  have x: "mat_ok n n x" "mat_mul n x (gather (eye n) (decoded piv)) = eye n"
    using assms(7) by (simp_all add: is_inverse_def)
  have "x = transpose_mat n n (gather (eye n) (decoded piv))"
    by (rule inverse_unique [OF x(1) transpose_ok x(2) gather_eye_transpose_right [OF p]])
  then have "is_permutation_matrix n x" using perm_matrix_gather [OF p] by simp
  then show ?thesis using LU_values_run [OF assms(1-6) x(1), of permute_l] by simp
qed

theorem returned_P_is_permutation_matrix_witness:
  "valid_input 3 ex_A \<and> dispatch_ok ex_build (device ex_A) \<and> (3::nat) < 2 ^ 31
   \<and> getrf_of ex_backend (device ex_A) 3 (dtype ex_A)
        (flatten 3 3 (transpose_mat 3 3 (mat_of ex_state ex_A)))
      = Inr ([4, 1 / 2, 0,  2, 2, 0,  0, 1, 2], [2, 3, 3])
   \<and> valid_pivots 3 [2, 3, 3]
   \<and> inverse_impl ex_backend (gather (eye 3) (decoded [2, 3, 3]))
      = Inr [[0, 0, 1], [1, 0, 0], [0, 1, 0]]
   \<and> is_inverse 3 (gather (eye 3) (decoded [2, 3, 3])) [[0, 0, 1], [1, 0, 0], [0, 1, 0::rat]]
   \<and> (\<exists>P L U. LU_values ex_build ex_backend ex_A True ex_state = Inr (P, L, U)
         \<and> is_permutation_matrix 3 P)"
proof -
  have i: "is_inverse 3 (gather (eye 3) (decoded [2, 3, 3])) [[0, 0, 1], [1, 0, 0], [0, 1, 0::rat]]"
    by code_simp
  have n: "(3::nat) < 2 ^ 31" by simp
  show ?thesis
    using returned_P_is_permutation_matrix [OF ex_valid n ex_getrf ex_pivots ex_inverse_impl i, of True]
      ex_valid n ex_getrf ex_pivots ex_inverse_impl i
    by blast
qed

text \<open>
  Claim C7. Neither \<^verbatim>\<open>LU_with_ipiv\<close> nor \<^verbatim>\<open>LU\<close> writes to \<open>A\<close>: whatever the input, the
  collaborators and the outcome (also when the call raises), every blob that existed
  before the call holds the same elements after it, so \<open>A\<close> denotes the same matrix, and
  the combined matrix \<^verbatim>\<open>LU_with_ipiv\<close> returns lives in a blob allocated by the call.
\<close>

theorem LU_never_writes_A:
  "frame s (snd (LU_with_ipiv cfg be A ipiv output s))
   \<and> frame s (snd (LU cfg be A permute_l s))
   \<and> (blob A < next_blob s \<longrightarrow>
        mat_of (snd (LU_with_ipiv cfg be A ipiv output s)) A = mat_of s A
        \<and> mat_of (snd (LU cfg be A permute_l s)) A = mat_of s A)
   \<and> (\<forall>ipiv' output' s'. LU_with_ipiv cfg be A ipiv output s = (Inr (ipiv', output'), s')
        \<longrightarrow> next_blob s \<le> blob output')"
proof -
  have 1: "frame s (snd (LU_with_ipiv cfg be A ipiv output s))"
    by (rule keeps_frame [OF keeps_LU_with_ipiv])
  have 2: "frame s (snd (LU cfg be A permute_l s))"
    by (rule keeps_frame [OF keeps_LU])
  show ?thesis
    using 1 2 frame_mat_of [OF 1, of A] frame_mat_of [OF 2, of A] LU_with_ipiv_output_fresh
    by blast
qed

theorem LU_never_writes_A_witness:
  "blob ex_A < next_blob ex_state
   \<and> frame ex_state (snd (LU_with_ipiv ex_build ex_backend ex_A ex_ipiv ex_output ex_state))
   \<and> frame ex_state (snd (LU ex_build ex_backend ex_A True ex_state))
   \<and> mat_of (snd (LU_with_ipiv ex_build ex_backend ex_A ex_ipiv ex_output ex_state)) ex_A
       = [[0, 0, 2], [4, 2, 0], [2, 3, 1]]
   \<and> mat_of (snd (LU ex_build ex_backend ex_A True ex_state)) ex_A
       = [[0, 0, 2], [4, 2, 0], [2, 3, 1]]"
proof -
  have b: "blob ex_A < next_blob ex_state" by code_simp
  show ?thesis
    using LU_never_writes_A [of ex_state ex_build ex_backend ex_A ex_ipiv ex_output True] b ex_mat
    by simp
qed

text \<open>
  Claim C8, amended. On a valid input: on an accelerator device, when accelerator support
  is compiled in, the accelerator kernel is invoked and the pivot array has element type
  \<open>Int32\<close>; on the host the host kernel is invoked and the pivot array has element type
  \<open>Int32\<close> for a 4-byte and \<open>Int64\<close> for an 8-byte host pivot integer; on the host with any
  other width the call raises \<open>UnsupportedIntegerWidth\<close> and invokes no kernel. Without the
  condition on the build the first part fails (the \<^verbatim>\<open>#ifdef BUILD_CUDA_MODULE\<close> gate): the
  third theorem below runs the driver on an accelerator tensor in a build without
  accelerator support, where no kernel is invoked and no pivot array is allocated.
\<close>

theorem kernel_dispatch:
  assumes "valid_input n A"
  shows "(GetType (device A) \<noteq> CUDA \<and> sizeof_OPEN3D_CPU_LINALG_INT cfg \<noteq> 4
            \<and> sizeof_OPEN3D_CPU_LINALG_INT cfg \<noteq> 8
          \<longrightarrow> fst (LU_with_ipiv cfg be A ipiv output s) = Inl UnsupportedIntegerWidth
            \<and> kernels (snd (LU_with_ipiv cfg be A ipiv output s)) = kernels s)
       \<and> (dispatch_ok cfg (device A)
          \<longrightarrow> kernels (snd (LU_with_ipiv cfg be A ipiv output s))
              = kernels s @ [if GetType (device A) = CUDA then LUCUDA_kernel else LUCPU_kernel])
       \<and> (dispatch_ok cfg (device A)
          \<longrightarrow> (\<forall>buf piv. getrf_of be (device A) n (dtype A)
                    (flatten n n (transpose_mat n n (mat_of s A))) = Inr (buf, piv)
                \<longrightarrow> (\<exists>ipiv' output' s'.
                      LU_with_ipiv cfg be A ipiv output s = (Inr (ipiv', output'), s')
                      \<and> shape ipiv' = [n]
                      \<and> dtype ipiv' = (if GetType (device A) = CUDA then Int32
                           else if sizeof_OPEN3D_CPU_LINALG_INT cfg = 4 then Int32 else Int64)
                      \<and> idata s' (blob ipiv') = piv)))"
proof (intro conjI impI allI)
  assume w: "GetType (device A) \<noteq> CUDA \<and> sizeof_OPEN3D_CPU_LINALG_INT cfg \<noteq> 4
            \<and> sizeof_OPEN3D_CPU_LINALG_INT cfg \<noteq> 8"
  obtain s' where r: "LU_with_ipiv cfg be A ipiv output s = (Inl UnsupportedIntegerWidth, s')"
    "kernels s' = kernels s"
    using LU_with_ipiv_width [OF assms, of cfg be ipiv "output" s] w by blast
  show "fst (LU_with_ipiv cfg be A ipiv output s) = Inl UnsupportedIntegerWidth"
    using r by simp
  show "kernels (snd (LU_with_ipiv cfg be A ipiv output s)) = kernels s"
    using r by simp
next
  assume d: "dispatch_ok cfg (device A)"
  let ?K = "if GetType (device A) = CUDA then LUCUDA_kernel else LUCPU_kernel"
  show "kernels (snd (LU_with_ipiv cfg be A ipiv output s)) = kernels s @ [?K]"
  proof (cases "getrf_of be (device A) n (dtype A)
                    (flatten n n (transpose_mat n n (mat_of s A)))")
    case (Inl e)
    obtain s' where "LU_with_ipiv cfg be A ipiv output s = (Inl e, s')"
      "kernels s' = kernels s @ [?K]"
      by (rule LU_with_ipiv_kernel_raises [OF assms d Inl])
    then show ?thesis by simp
  next
    case (Inr r)
    obtain buf piv where r: "r = (buf, piv)" by (cases r)
    obtain ipiv' output' s' where
      "LU_with_ipiv cfg be A ipiv output s = (Inr (ipiv', output'), s')"
      "shape output' = [n, n]" "blob output' < next_blob s'" "mat_of s' output' = col_major n buf"
      "shape ipiv' = [n]" "blob ipiv' < next_blob s'" "idata s' (blob ipiv') = piv"
      "dtype ipiv' = (if GetType (device A) = CUDA then Int32
         else if sizeof_OPEN3D_CPU_LINALG_INT cfg = 4 then Int32 else Int64)"
      "kernels s' = kernels s @ [?K]"
      "logged s' = logged s"
      by (rule LU_with_ipiv_run [OF assms d Inr [unfolded r]])
    then show ?thesis by simp
  qed
next
  fix buf piv
  assume d: "dispatch_ok cfg (device A)"
    and k: "getrf_of be (device A) n (dtype A)
                    (flatten n n (transpose_mat n n (mat_of s A))) = Inr (buf, piv)"
  obtain ipiv' output' s' where
    "LU_with_ipiv cfg be A ipiv output s = (Inr (ipiv', output'), s')"
    "shape output' = [n, n]" "blob output' < next_blob s'" "mat_of s' output' = col_major n buf"
    "shape ipiv' = [n]" "blob ipiv' < next_blob s'" "idata s' (blob ipiv') = piv"
    "dtype ipiv' = (if GetType (device A) = CUDA then Int32
       else if sizeof_OPEN3D_CPU_LINALG_INT cfg = 4 then Int32 else Int64)"
    "kernels s' = kernels s @ [if GetType (device A) = CUDA then LUCUDA_kernel else LUCPU_kernel]"
    "logged s' = logged s"
    by (rule LU_with_ipiv_run [OF assms d k])
  then show "\<exists>ipiv' output' s'.
                      LU_with_ipiv cfg be A ipiv output s = (Inr (ipiv', output'), s')
                      \<and> shape ipiv' = [n]
                      \<and> dtype ipiv' = (if GetType (device A) = CUDA then Int32
                           else if sizeof_OPEN3D_CPU_LINALG_INT cfg = 4 then Int32 else Int64)
                      \<and> idata s' (blob ipiv') = piv"
    by blast
qed

theorem kernel_dispatch_witness:
  "valid_input 3 ex_A
   \<and> (GetType (device ex_A) \<noteq> CUDA \<and> sizeof_OPEN3D_CPU_LINALG_INT ex_build_int16 \<noteq> 4
        \<and> sizeof_OPEN3D_CPU_LINALG_INT ex_build_int16 \<noteq> 8)
   \<and> fst (LU_with_ipiv ex_build_int16 ex_backend ex_A ex_ipiv ex_output ex_state)
        = Inl UnsupportedIntegerWidth
   \<and> kernels (snd (LU_with_ipiv ex_build_int16 ex_backend ex_A ex_ipiv ex_output ex_state)) = []
   \<and> dispatch_ok ex_build (device ex_A)
   \<and> kernels (snd (LU_with_ipiv ex_build ex_backend ex_A ex_ipiv ex_output ex_state))
        = [LUCPU_kernel]
   \<and> getrf_of ex_backend (device ex_A) 3 (dtype ex_A)
        (flatten 3 3 (transpose_mat 3 3 (mat_of ex_state ex_A)))
      = Inr ([4, 1 / 2, 0,  2, 2, 0,  0, 1, 2], [2, 3, 3])
   \<and> (\<exists>ipiv' output' s'.
          LU_with_ipiv ex_build ex_backend ex_A ex_ipiv ex_output ex_state
            = (Inr (ipiv', output'), s')
          \<and> shape ipiv' = [3] \<and> dtype ipiv' = Int32 \<and> idata s' (blob ipiv') = [2, 3, 3])
   \<and> valid_input 3 ex_cuda_A \<and> dispatch_ok ex_build_cuda (device ex_cuda_A)
   \<and> kernels (snd (LU_with_ipiv ex_build_cuda ex_backend ex_cuda_A ex_ipiv ex_output ex_state))
        = [LUCUDA_kernel]"
proof -
  have w: "GetType (device ex_A) \<noteq> CUDA \<and> sizeof_OPEN3D_CPU_LINALG_INT ex_build_int16 \<noteq> 4
        \<and> sizeof_OPEN3D_CPU_LINALG_INT ex_build_int16 \<noteq> 8" by code_simp
  have d: "dispatch_ok ex_build_cuda (device ex_cuda_A)" by code_simp
  have k0: "kernels ex_state = []" by code_simp
  have c: "GetType (device ex_A) \<noteq> CUDA" "sizeof_OPEN3D_CPU_LINALG_INT ex_build = 4"
    "GetType (device ex_cuda_A) = CUDA" by code_simp+
  note t1 = kernel_dispatch [OF ex_valid(1), of ex_build_int16 ex_backend ex_ipiv ex_output ex_state]
  note t2 = kernel_dispatch [OF ex_valid(1), of ex_build ex_backend ex_ipiv ex_output ex_state]
  note t3 = kernel_dispatch [OF ex_cuda_valid(1), of ex_build_cuda ex_backend ex_ipiv ex_output ex_state]
  note r1 = t1 [THEN conjunct1, rule_format, OF w]
  note r2 = t2 [THEN conjunct2, THEN conjunct1, rule_format, OF ex_valid(2)]
  note r3 = t2 [THEN conjunct2, THEN conjunct2, rule_format, OF ex_valid(2) ex_getrf]
  note r4 = t3 [THEN conjunct2, THEN conjunct1, rule_format, OF d]
  have r1': "kernels (snd (LU_with_ipiv ex_build_int16 ex_backend ex_A ex_ipiv ex_output ex_state)) = []"
    using r1 k0 by simp
  have r2': "kernels (snd (LU_with_ipiv ex_build ex_backend ex_A ex_ipiv ex_output ex_state))
        = [LUCPU_kernel]"
    using r2 k0 c by simp
  have r3': "\<exists>ipiv' output' s'.
          LU_with_ipiv ex_build ex_backend ex_A ex_ipiv ex_output ex_state
            = (Inr (ipiv', output'), s')
          \<and> shape ipiv' = [3] \<and> dtype ipiv' = Int32 \<and> idata s' (blob ipiv') = [2, 3, 3]"
    using r3 c by simp
  have r4': "kernels (snd (LU_with_ipiv ex_build_cuda ex_backend ex_cuda_A ex_ipiv ex_output ex_state))
        = [LUCUDA_kernel]"
    using r4 k0 c by simp
  show ?thesis
    using ex_valid w r1 r1' r2' ex_getrf r3' ex_cuda_valid(1) d r4' by blast
qed

theorem accelerator_kernel_not_invoked_without_support:
  "valid_input 3 ex_cuda_A \<and> GetType (device ex_cuda_A) = CUDA \<and> \<not> BUILD_CUDA_MODULE ex_build
   \<and> LU_with_ipiv_values ex_build ex_backend ex_cuda_A ex_ipiv ex_output ex_state
       = Inr (ex_ipiv, [[0, 0, 2], [4, 2, 0], [2, 3, 1]])
   \<and> dtype ex_ipiv \<noteq> Int32
   \<and> kernels (snd (LU_with_ipiv ex_build ex_backend ex_cuda_A ex_ipiv ex_output ex_state)) = []"
proof -
  have "dtype ex_ipiv \<noteq> Int32" "kernels ex_state = []" by code_simp+
  then show ?thesis
    using LU_with_ipiv_values_degrade [OF ex_cuda_valid, of ex_backend ex_ipiv ex_output ex_state]
      ex_cuda_valid ex_cuda_mat
    by simp
qed

text \<open>
  Claim C9, amended. When the input is on an accelerator device and accelerator support is
  not compiled in, \<^verbatim>\<open>LU_with_ipiv\<close> on an input that passes its checks raises no error:
  it logs ``Unimplemented device.'' and nothing else, and returns, and no factorization
  kernel is invoked. The two restrictions are needed, and the third theorem below runs the
  code where each is dropped: \<^verbatim>\<open>LU\<close> on such an input logs the diagnostic and then raises
  in the reconstruction, on the pivot handle that was never assigned; and on a \<open>3 \<times> 4\<close>
  accelerator tensor \<^verbatim>\<open>LU_with_ipiv\<close> raises \<open>NotSquare\<close> before it reaches the dispatch,
  with nothing logged.
\<close>

theorem missing_accelerator_degrades_to_log:
  assumes "valid_input n A" "GetType (device A) = CUDA" "\<not> BUILD_CUDA_MODULE cfg"
  shows "\<exists>r s'. LU_with_ipiv cfg be A ipiv output s = (Inr r, s')
           \<and> logged s' = logged s @ [''Unimplemented device.'']
           \<and> kernels s' = kernels s"
proof -
  obtain output' s' where "LU_with_ipiv cfg be A ipiv output s = (Inr (ipiv, output'), s')"
    "shape output' = [n, n]" "mat_of s' output' = mat_of s A"
    "logged s' = logged s @ [''Unimplemented device.'']" "kernels s' = kernels s"
    "idata s' = idata s"
    by (rule LU_with_ipiv_degrade [OF assms])
  then show ?thesis by blast
qed

theorem missing_accelerator_degrades_to_log_witness:
  "valid_input 3 ex_cuda_A \<and> GetType (device ex_cuda_A) = CUDA \<and> \<not> BUILD_CUDA_MODULE ex_build
   \<and> (\<exists>r s'. LU_with_ipiv ex_build ex_backend ex_cuda_A ex_ipiv ex_output ex_state = (Inr r, s')
           \<and> logged s' = [''Unimplemented device.''] \<and> kernels s' = [])"
proof -
  have "logged ex_state = []" "kernels ex_state = []" by code_simp+
  then show ?thesis
    using missing_accelerator_degrades_to_log [OF ex_cuda_valid, of ex_backend ex_ipiv ex_output ex_state]
      ex_cuda_valid
    by simp
qed

theorem accelerator_degrade_can_raise:
  "valid_input 3 ex_cuda_A \<and> GetType (device ex_cuda_A) = CUDA \<and> \<not> BUILD_CUDA_MODULE ex_build
   \<and> fst (LU ex_build ex_backend ex_cuda_A False ex_state) = Inl OutOfBounds
   \<and> logged (snd (LU ex_build ex_backend ex_cuda_A False ex_state)) = [''Unimplemented device.'']
   \<and> kernels (snd (LU ex_build ex_backend ex_cuda_A False ex_state)) = []
   \<and> GetType (device ex_cuda_3x4_A) = CUDA
   \<and> fst (LU_with_ipiv ex_build ex_backend ex_cuda_3x4_A ex_ipiv ex_output ex_state)
       = Inl NotSquare
   \<and> logged (snd (LU_with_ipiv ex_build ex_backend ex_cuda_3x4_A ex_ipiv ex_output ex_state)) = []"
proof -
  have e: "idata ex_state (next_blob ex_state) = []" "logged ex_state = []"
    "kernels ex_state = []"
    by code_simp+
  obtain s' where "LU ex_build ex_backend ex_cuda_A False ex_state = (Inl OutOfBounds, s')"
    "logged s' = logged ex_state @ [''Unimplemented device.'']" "kernels s' = kernels ex_state"
    by (rule LU_degrade_raises [OF ex_cuda_valid e(1)])
  then have "fst (LU ex_build ex_backend ex_cuda_A False ex_state) = Inl OutOfBounds"
    "logged (snd (LU ex_build ex_backend ex_cuda_A False ex_state)) = [''Unimplemented device.'']"
    "kernels (snd (LU ex_build ex_backend ex_cuda_A False ex_state)) = []"
    using e by simp_all
  moreover have "GetType (device ex_cuda_3x4_A) = CUDA"
    "fst (LU_with_ipiv ex_build ex_backend ex_cuda_3x4_A ex_ipiv ex_output ex_state)
       = Inl NotSquare"
    "logged (snd (LU_with_ipiv ex_build ex_backend ex_cuda_3x4_A ex_ipiv ex_output ex_state)) = []"
    by code_simp+
  ultimately show ?thesis using ex_cuda_valid by blast
qed

text \<open>
  Claim C10. On that path \<^verbatim>\<open>LU_with_ipiv\<close> still assigns \<^verbatim>\<open>output\<close>: it returns a freshly
  allocated tensor whose matrix equals the input \<open>A\<close> (the copy, transposed twice and never
  factorized), while \<^verbatim>\<open>ipiv\<close> comes back as the caller passed it and no integer blob is
  written.
\<close>

theorem degrade_path_returns_copy_of_A:
  assumes "valid_input n A" "GetType (device A) = CUDA" "\<not> BUILD_CUDA_MODULE cfg"
  shows "\<exists>output' s'. LU_with_ipiv cfg be A ipiv output s = (Inr (ipiv, output'), s')
           \<and> shape output' = [n, n]
           \<and> mat_of s' output' = mat_of s A
           \<and> next_blob s \<le> blob output'
           \<and> idata s' = idata s"
proof -
  obtain output' s' where r: "LU_with_ipiv cfg be A ipiv output s = (Inr (ipiv, output'), s')"
    "shape output' = [n, n]" "mat_of s' output' = mat_of s A"
    "logged s' = logged s @ [''Unimplemented device.'']" "kernels s' = kernels s"
    "idata s' = idata s"
    by (rule LU_with_ipiv_degrade [OF assms])
  moreover have "next_blob s \<le> blob output'" using r(1) by (rule LU_with_ipiv_output_fresh)
  ultimately show ?thesis by blast
qed

theorem degrade_path_returns_copy_of_A_witness:
  "valid_input 3 ex_cuda_A \<and> GetType (device ex_cuda_A) = CUDA \<and> \<not> BUILD_CUDA_MODULE ex_build
   \<and> (\<exists>output' s'. LU_with_ipiv ex_build ex_backend ex_cuda_A ex_ipiv ex_output ex_state
             = (Inr (ex_ipiv, output'), s')
           \<and> shape output' = [3, 3]
           \<and> mat_of s' output' = [[0, 0, 2], [4, 2, 0], [2, 3, 1]]
           \<and> 3 \<le> blob output')"
proof -
  have "next_blob ex_state = 3" by code_simp
  then show ?thesis
    using degrade_path_returns_copy_of_A [OF ex_cuda_valid, of ex_backend ex_ipiv ex_output ex_state]
      ex_cuda_valid ex_cuda_mat
    by auto
qed

end
